theory Spec2Isabelle
  imports Main "HOL-Library.AList" "HOL-Library.Sublist"
begin

section \<open>Path strings\<close>

text \<open>
  The program runs on the functions \<^verbatim>\<open>os.path.basename\<close>, \<^verbatim>\<open>os.path.dirname\<close>,
  \<^verbatim>\<open>os.path.join\<close>, \<^verbatim>\<open>os.path.splitext\<close> and on \<^verbatim>\<open>str\<close> of the collision counter.
  They are modelled after CPython's \<^verbatim>\<open>posixpath\<close>: the separator is the slash, there is
  no alternative separator. A path is a \<open>string\<close>; the slash and the dot are ASCII, so the
  functions agree with Python's on UTF-8 encoded names.
\<close>

definition rfind :: "string \<Rightarrow> char \<Rightarrow> int" where
  \<comment> \<open>\<^verbatim>\<open>p.rfind(c)\<close>: the highest index of \<open>c\<close>, or \<open>-1\<close>\<close>
  "rfind p c =
     (if c \<in> set p
      then int (length p) - 1 - int (length (takeWhile (\<lambda>x. x \<noteq> c) (rev p)))
      else - 1)"

definition basename :: "string \<Rightarrow> string" where
  "basename p = (let i = rfind p (CHR ''/'') + 1 in drop (nat i) p)"

definition rstrip :: "string \<Rightarrow> string" where
  \<comment> \<open>\<^verbatim>\<open>p.rstrip('/')\<close>\<close>
  "rstrip p = rev (dropWhile (\<lambda>x. x = CHR ''/'') (rev p))"

definition dirname :: "string \<Rightarrow> string" where
  "dirname p =
     (let i = rfind p (CHR ''/'') + 1;
          head = take (nat i) p
      in if head \<noteq> [] \<and> head \<noteq> replicate (length head) (CHR ''/'') then rstrip head else head)"

definition join :: "string \<Rightarrow> string \<Rightarrow> string" where
  "join a b =
     (if b \<noteq> [] \<and> hd b = CHR ''/'' then b
      else if a = [] \<or> last a = CHR ''/'' then a @ b
      else a @ CHR ''/'' # b)"

function splitext_loop :: "string \<Rightarrow> int \<Rightarrow> int \<Rightarrow> bool" where
  \<comment> \<open>the loop of \<^verbatim>\<open>genericpath._splitext\<close> that skips leading dots: true when it returns
      the split\<close>
  "splitext_loop p dotIndex filenameIndex =
     (if filenameIndex < dotIndex
      then (if take 1 (drop (nat filenameIndex) p) \<noteq> ''.'' then True
            else splitext_loop p dotIndex (filenameIndex + 1))
      else False)"
  by pat_completeness auto
termination
  by (relation "measure (\<lambda>(p, dotIndex, filenameIndex). nat (dotIndex - filenameIndex))") auto

declare splitext_loop.simps [simp del]

definition splitext :: "string \<Rightarrow> string \<times> string" where
  "splitext p =
     (let sepIndex = rfind p (CHR ''/'');
          dotIndex = rfind p (CHR ''.'')
      in if dotIndex > sepIndex \<and> splitext_loop p dotIndex (sepIndex + 1)
         then (take (nat dotIndex) p, drop (nat dotIndex) p)
         else (p, []))"

definition digit_char :: "nat \<Rightarrow> char" where
  "digit_char d = ''0123456789'' ! d"

function str :: "nat \<Rightarrow> string" where
  \<comment> \<open>\<^verbatim>\<open>str(counter)\<close>; the counter starts at 1 and is only incremented, so it is a \<open>nat\<close>\<close>
  "str n = (if n < 10 then [digit_char n] else str (n div 10) @ [digit_char (n mod 10)])"
  by pat_completeness auto
termination
  by (relation "measure id") auto

declare str.simps [simp del]

section \<open>The file system\<close>

text \<open>
  The file system is a tree: a file with its bytes, or a directory with its named entries.
  It stands for one POSIX device without symbolic links, special files or permission
  failures; the names \<^verbatim>\<open>.\<close> and \<^verbatim>\<open>..\<close> have no special meaning, and a relative path is
  resolved from the root. Modification times and permission bits are not modelled.
\<close>

datatype node = File string | Dir "(string \<times> node) list"

datatype py_error =
    FileNotFoundError | NotADirectoryError | IsADirectoryError | FileExistsError
  | SameFileError | ShutilError | RecursionError | OSError

function components :: "string \<Rightarrow> string list" where
  "components [] = []"
| "components (c # cs) =
     (if c = CHR ''/'' then components cs
      else (c # takeWhile (\<lambda>x. x \<noteq> CHR ''/'') cs)
             # components (dropWhile (\<lambda>x. x \<noteq> CHR ''/'') cs))"
  by pat_completeness auto
termination
  by (relation "measure length") (auto simp: length_dropWhile_le less_Suc_eq_le)

declare components.simps(2) [simp del]

fun lookup :: "node \<Rightarrow> string list \<Rightarrow> node option" where
  "lookup n [] = Some n"
| "lookup (File content) (c # cs) = None"
| "lookup (Dir es) (c # cs) = (case map_of es c of None \<Rightarrow> None | Some m \<Rightarrow> lookup m cs)"

definition stat :: "node \<Rightarrow> string \<Rightarrow> node option" where
  \<comment> \<open>the empty path names nothing; a trailing slash asks for a directory\<close>
  "stat fs p =
     (if p = [] then None
      else case lookup fs (components p) of
             None \<Rightarrow> None
           | Some (File content) \<Rightarrow> if last p = CHR ''/'' then None else Some (File content)
           | Some (Dir es) \<Rightarrow> Some (Dir es))"

definition exists_path :: "node \<Rightarrow> string \<Rightarrow> bool" where
  \<comment> \<open>\<^verbatim>\<open>os.path.exists\<close>\<close>
  "exists_path fs p = (stat fs p \<noteq> None)"

definition isdir :: "node \<Rightarrow> string \<Rightarrow> bool" where
  \<comment> \<open>\<^verbatim>\<open>os.path.isdir\<close>\<close>
  "isdir fs p = (case stat fs p of Some (Dir es) \<Rightarrow> True | _ \<Rightarrow> False)"

fun put :: "node \<Rightarrow> string list \<Rightarrow> node \<Rightarrow> py_error + node" where
  \<comment> \<open>create or replace the entry at a path whose parent is an existing directory\<close>
  "put n [] new = Inl IsADirectoryError"
| "put (File content) (c # cs) new = Inl NotADirectoryError"
| "put (Dir es) (c # cs) new =
     (if cs = [] then Inr (Dir (AList.update c new es))
      else case map_of es c of
             None \<Rightarrow> Inl FileNotFoundError
           | Some m \<Rightarrow> (case put m cs new of
                          Inl e \<Rightarrow> Inl e
                        | Inr m' \<Rightarrow> Inr (Dir (AList.update c m' es))))"

fun mk_chain :: "string list \<Rightarrow> node \<Rightarrow> node" where
  "mk_chain [] new = new"
| "mk_chain (c # cs) new = Dir [(c, mk_chain cs new)]"

fun put_mk :: "node \<Rightarrow> string list \<Rightarrow> node \<Rightarrow> py_error + node" where
  \<comment> \<open>\<^verbatim>\<open>os.makedirs\<close> of a path that must not exist, with the new entry placed at its end:
      missing parent directories are created\<close>
  "put_mk n [] new = Inl FileExistsError"
| "put_mk (File content) (c # cs) new = Inl NotADirectoryError"
| "put_mk (Dir es) (c # cs) new =
     (case map_of es c of
        None \<Rightarrow> Inr (Dir (AList.update c (mk_chain cs new) es))
      | Some m \<Rightarrow> (case put_mk m cs new of
                     Inl e \<Rightarrow> Inl e
                   | Inr m' \<Rightarrow> Inr (Dir (AList.update c m' es))))"

fun remove :: "node \<Rightarrow> string list \<Rightarrow> node" where
  \<comment> \<open>delete the entry at a path, with everything below it\<close>
  "remove n [] = n"
| "remove (File content) (c # cs) = File content"
| "remove (Dir es) (c # cs) =
     (if cs = [] then Dir (AList.delete c es)
      else case map_of es c of
             None \<Rightarrow> Dir es
           | Some m \<Rightarrow> Dir (AList.update c (remove m cs) es))"

section \<open>The calls into \<^verbatim>\<open>os\<close> and \<^verbatim>\<open>shutil\<close>\<close>

text \<open>
  Each call returns the new file system or the exception it raises. A call that raises
  leaves the file system as it was, with one exception that the model does not follow:
  \<^verbatim>\<open>shutil.copytree\<close> of a directory into one of its own subdirectories recurses until
  Python gives up, and leaves the directories created so far behind; the model reports
  the \<open>RecursionError\<close> and keeps the old tree. Which subclass of \<^verbatim>\<open>OSError\<close> a failing
  call raises is followed only in the plain cases.
\<close>

definition samefile :: "node \<Rightarrow> string \<Rightarrow> string \<Rightarrow> bool" where
  "samefile fs a b = (stat fs a \<noteq> None \<and> stat fs b \<noteq> None \<and> components a = components b)"

definition os_rename :: "node \<Rightarrow> string \<Rightarrow> string \<Rightarrow> py_error + node" where
  "os_rename fs src dst =
     (case stat fs src of
        None \<Rightarrow> Inl FileNotFoundError
      | Some n \<Rightarrow>
          (let p = components src; q = components dst in
           if dst = [] then Inl FileNotFoundError
           else if (case n of File content \<Rightarrow> last dst = CHR ''/'' | Dir es \<Rightarrow> False)
             then Inl NotADirectoryError
           else if p = q then Inr fs
           else if p = [] then Inl OSError
           else if prefix p q then Inl OSError
           else (case lookup fs q of
                   None \<Rightarrow> put (remove fs p) q n
                 | Some (File old) \<Rightarrow>
                     (case n of File content \<Rightarrow> put (remove fs p) q n
                              | Dir es \<Rightarrow> Inl NotADirectoryError)
                 | Some (Dir old) \<Rightarrow>
                     (case n of File content \<Rightarrow> Inl IsADirectoryError
                              | Dir es \<Rightarrow> if old = [] then put (remove fs p) q n
                                         else Inl OSError))))"

definition write_file :: "node \<Rightarrow> string \<Rightarrow> string \<Rightarrow> py_error + node" where
  \<comment> \<open>\<^verbatim>\<open>open(dst, 'wb')\<close> and the write of the whole content\<close>
  "write_file fs dst content =
     (if dst = [] then Inl FileNotFoundError
      else case lookup fs (components dst) of
             Some (Dir es) \<Rightarrow> Inl IsADirectoryError
           | Some (File old) \<Rightarrow>
               if last dst = CHR ''/'' then Inl NotADirectoryError
               else put fs (components dst) (File content)
           | None \<Rightarrow>
               if last dst = CHR ''/'' then Inl FileNotFoundError
               else put fs (components dst) (File content))"

definition copyfile :: "node \<Rightarrow> string \<Rightarrow> string \<Rightarrow> py_error + node" where
  "copyfile fs src dst =
     (if samefile fs src dst then Inl SameFileError
      else case stat fs src of
             None \<Rightarrow> Inl FileNotFoundError
           | Some (Dir es) \<Rightarrow> Inl IsADirectoryError
           | Some (File content) \<Rightarrow> write_file fs dst content)"

definition copy2 :: "node \<Rightarrow> string \<Rightarrow> string \<Rightarrow> py_error + node" where
  "copy2 fs src dst =
     (let dst' = (if isdir fs dst then join dst (basename src) else dst)
      in copyfile fs src dst')"

definition copytree :: "node \<Rightarrow> string \<Rightarrow> string \<Rightarrow> py_error + node" where
  \<comment> \<open>the entries of \<open>src\<close> are listed, then \<^verbatim>\<open>os.makedirs(dst)\<close>, then the entries are
      copied: the copy is the tree that \<open>src\<close> held before the call\<close>
  "copytree fs src dst =
     (case stat fs src of
        None \<Rightarrow> Inl FileNotFoundError
      | Some (File content) \<Rightarrow> Inl NotADirectoryError
      | Some (Dir es) \<Rightarrow>
          (let p = components src; q = components dst in
           if dst = [] then Inl FileNotFoundError
           else case put_mk fs q (Dir es) of
                  Inl e \<Rightarrow> Inl e
                | Inr fs' \<Rightarrow>
                    if prefix p q \<and> length p + 2 \<le> length q
                       \<and> (case lookup fs (take (Suc (length p)) q) of
                            Some (Dir sub) \<Rightarrow> True | _ \<Rightarrow> False)
                    then Inl RecursionError
                    else Inr fs'))"

definition destinsrc :: "string \<Rightarrow> string \<Rightarrow> bool" where
  \<comment> \<open>\<^verbatim>\<open>shutil._destinsrc\<close>\<close>
  "destinsrc src dst = prefix (components src) (components dst)"

definition move_to :: "node \<Rightarrow> string \<Rightarrow> string \<Rightarrow> string \<Rightarrow> py_error + node" where
  \<comment> \<open>\<^verbatim>\<open>shutil.move\<close> from its \<^verbatim>\<open>os.rename(src, real_dst)\<close> on\<close>
  "move_to fs src dst real_dst =
     (case os_rename fs src real_dst of
        Inr fs' \<Rightarrow> Inr fs'
      | Inl e \<Rightarrow>
          if isdir fs src then
            (if destinsrc src dst then Inl ShutilError
             else case copytree fs src real_dst of
                    Inl e' \<Rightarrow> Inl e'
                  | Inr fs' \<Rightarrow> Inr (remove fs' (components src)))
          else (case copy2 fs src real_dst of
                  Inl e' \<Rightarrow> Inl e'
                | Inr fs' \<Rightarrow> Inr (remove fs' (components src))))"

definition move :: "node \<Rightarrow> string \<Rightarrow> string \<Rightarrow> py_error + node" where
  \<comment> \<open>\<^verbatim>\<open>shutil.move\<close>\<close>
  "move fs src dst =
     (if isdir fs dst then
        (if samefile fs src dst then os_rename fs src dst
         else let real_dst = join dst (basename (rstrip src))
              in if exists_path fs real_dst then Inl ShutilError
                 else move_to fs src dst real_dst)
      else move_to fs src dst dst)"

section \<open>The file manager\<close>

text \<open>
  The state of \<^verbatim>\<open>AdvancedFileManager\<close> that the actions read and write: the two
  attributes of the window, the URL list on the system clipboard (\<open>None\<close> when the
  clipboard holds no URLs; a URL is kept as the local path it stands for), and the file
  system. The selection, the directory shown in the table and the answer of an input
  dialog are arguments of the actions; the error dialog an action shows is its second
  result.
\<close>

record app_state =
  is_cut_operation :: bool
  cut_paths :: "string list"
  clipboard :: "string list option"
  files :: node

definition action_copy :: "app_state \<Rightarrow> string list \<Rightarrow> app_state" where
  "action_copy st paths =
     (if paths = [] then st
      else st\<lparr>is_cut_operation := False, clipboard := Some paths\<rparr>)"

definition action_cut :: "app_state \<Rightarrow> string list \<Rightarrow> app_state" where
  "action_cut st paths =
     (if paths = [] then st
      else st\<lparr>is_cut_operation := True, cut_paths := paths, clipboard := Some paths\<rparr>)"

definition probe_path :: "string \<Rightarrow> string \<Rightarrow> string \<Rightarrow> nat \<Rightarrow> string" where
  \<comment> \<open>\<^verbatim>\<open>os.path.join(dest_dir, f"{base}_copy{counter}{ext}")\<close>\<close>
  "probe_path dest_dir base ext counter = join dest_dir (base @ ''_copy'' @ str counter @ ext)"

partial_function (option) probe_loop ::
    "node \<Rightarrow> string \<Rightarrow> string \<Rightarrow> string \<Rightarrow> string \<Rightarrow> nat \<Rightarrow> string option" where
  \<comment> \<open>the \<^verbatim>\<open>while os.path.exists(dest_path)\<close> loop; \<open>None\<close> stands for a loop that never ends\<close>
  "probe_loop fs dest_dir base ext dest_path counter =
     (if exists_path fs dest_path
      then probe_loop fs dest_dir base ext (probe_path dest_dir base ext counter) (counter + 1)
      else Some dest_path)"

declare probe_loop.simps [code]

definition resolve_dest :: "node \<Rightarrow> string \<Rightarrow> string \<Rightarrow> string option" where
  \<comment> \<open>lines 271 to 280 of \<^verbatim>\<open>action_paste\<close>: the destination path of one source\<close>
  "resolve_dest fs dest_dir src_path =
     (let file_name = basename src_path;
          dest_path = join dest_dir file_name
      in if exists_path fs dest_path
         then (let (base, ext) = splitext file_name
               in probe_loop fs dest_dir base ext dest_path 1)
         else Some dest_path)"

definition is_move :: "app_state \<Rightarrow> string \<Rightarrow> bool" where
  "is_move st src_path = (is_cut_operation st \<and> src_path \<in> set (cut_paths st))"

definition transfer :: "app_state \<Rightarrow> string \<Rightarrow> string \<Rightarrow> py_error + node" where
  \<comment> \<open>lines 284 to 292: move or copy one source to its destination path\<close>
  "transfer st src_path dest_path =
     (if is_move st src_path then move (files st) src_path dest_path
      else if isdir (files st) src_path then copytree (files st) src_path dest_path
      else copy2 (files st) src_path dest_path)"

definition paste_item :: "app_state \<Rightarrow> string \<Rightarrow> string \<Rightarrow> (py_error + node) option" where
  \<comment> \<open>the body of the \<^verbatim>\<open>for url in urls\<close> loop\<close>
  "paste_item st dest_dir src_path =
     (case resolve_dest (files st) dest_dir src_path of
        None \<Rightarrow> None
      | Some dest_path \<Rightarrow> Some (transfer st src_path dest_path))"

fun paste_loop :: "app_state \<Rightarrow> string \<Rightarrow> string list \<Rightarrow> (app_state \<times> py_error option) option" where
  \<comment> \<open>the loop inside \<^verbatim>\<open>try\<close>: the first exception leaves the loop, and what the earlier
      items did to the file system stays\<close>
  "paste_loop st dest_dir [] = Some (st, None)"
| "paste_loop st dest_dir (src_path # urls) =
     (case paste_item st dest_dir src_path of
        None \<Rightarrow> None
      | Some (Inl e) \<Rightarrow> Some (st, Some e)
      | Some (Inr fs') \<Rightarrow> paste_loop (st\<lparr>files := fs'\<rparr>) dest_dir urls)"

definition action_paste :: "app_state \<Rightarrow> string \<Rightarrow> (app_state \<times> py_error option) option" where
  \<comment> \<open>the second result is the exception shown in the error dialog, if any\<close>
  "action_paste st dest_dir =
     (case clipboard st of
        None \<Rightarrow> Some (st, None)
      | Some urls \<Rightarrow>
          (case paste_loop st dest_dir urls of
             None \<Rightarrow> None
           | Some (st', Some e) \<Rightarrow> Some (st', Some e)
           | Some (st', None) \<Rightarrow>
               if is_cut_operation st'
               then Some (st'\<lparr>is_cut_operation := False, cut_paths := [], clipboard := None\<rparr>, None)
               else Some (st', None)))"

definition action_rename ::
    "app_state \<Rightarrow> (string \<times> string) list \<Rightarrow> string \<times> bool \<Rightarrow> app_state \<times> py_error option" where
  \<comment> \<open>a selected row is given as its \<^verbatim>\<open>filePath\<close> and its \<^verbatim>\<open>fileName\<close>; the answer is what
      \<^verbatim>\<open>QInputDialog.getText\<close> returns\<close>
  "action_rename st indexes answer =
     (if length indexes \<noteq> 1 then (st, None)
      else
        (let (old_path, old_name) = hd indexes;
             (new_name, ok) = answer
         in if ok \<and> new_name \<noteq> [] \<and> new_name \<noteq> old_name
            then (let new_path = join (dirname old_path) new_name
                  in case os_rename (files st) old_path new_path of
                       Inl e \<Rightarrow> (st, Some e)
                     | Inr fs' \<Rightarrow> (st\<lparr>files := fs'\<rparr>, None))
            else (st, None)))"

section \<open>Auxiliary definitions for the proofs\<close>

definition probe_name :: "string \<Rightarrow> string \<Rightarrow> nat \<Rightarrow> string" where
  \<comment> \<open>the name \<^verbatim>\<open>f"{base}_copy{counter}{ext}"\<close> that \<open>probe_path\<close> joins to the directory\<close>
  "probe_name base ext counter = base @ ''_copy'' @ str counter @ ext"

text \<open>A small file system and a state of the manager, for the concrete runs below.\<close>

definition demo_fs :: node where
  "demo_fs =
     Dir [(''s'', Dir [(''a.txt'', File ''A''), (''b.txt'', File ''B''), (''c.txt'', File ''C''),
                       (''my.folder'', Dir [(''x'', File ''X'')])]),
          (''d'', Dir [(''a.txt'', File ''old''), (''a_copy1.txt'', File ''older''),
                       (''my.folder'', Dir [])])]"

definition demo_state :: app_state where
  "demo_state = \<lparr>is_cut_operation = False, cut_paths = [], clipboard = None, files = demo_fs\<rparr>"


section \<open>Decimal numerals\<close>

lemma digit_cases: "d < 10 \<Longrightarrow> d \<in> {0, 1, 2, 3, 4, 5, 6, 7, 8, 9::nat}"
  by auto

lemma digit_char_inj: "a < 10 \<Longrightarrow> b < 10 \<Longrightarrow> digit_char a = digit_char b \<Longrightarrow> a = b"
  using digit_cases [of a] digit_cases [of b] by (auto simp: digit_char_def)

lemma digit_char_not_slash: "d < 10 \<Longrightarrow> digit_char d \<noteq> CHR ''/''"
  using digit_cases [of d] by (auto simp: digit_char_def)

lemma str_nonempty: "str n \<noteq> []"
  by (subst str.simps) simp

lemma str_no_slash: "CHR ''/'' \<notin> set (str n)"
proof (induction n rule: str.induct)
  case (1 n)
  show ?case
  proof (cases "n < 10")
    case True
    then show ?thesis using digit_char_not_slash [of n] by (subst str.simps) auto
  next
    case False
    have "n mod 10 < 10" by simp
    then have "digit_char (n mod 10) \<noteq> CHR ''/''" by (rule digit_char_not_slash)
    with False 1 show ?thesis by (subst str.simps) auto
  qed
qed

lemma str_length_ge2: "\<not> n < 10 \<Longrightarrow> 2 \<le> length (str n)"
  using str_nonempty [of "n div 10"] by (subst str.simps) (cases "str (n div 10)"; simp)

lemma str_inj: "str n = str m \<Longrightarrow> n = m"
proof (induction n arbitrary: m rule: str.induct)
  case (1 n)
  show ?case
  proof (cases "n < 10")
    case True
    note n = this
    show ?thesis
    proof (cases "m < 10")
      case True
      with n 1(2) have "digit_char n = digit_char m" by (simp add: str.simps [of n] str.simps [of m])
      with n True show ?thesis by (rule digit_char_inj)
    next
      case False
      from n have "length (str n) = 1" by (subst str.simps) simp
      moreover from False have "2 \<le> length (str m)" by (rule str_length_ge2)
      ultimately show ?thesis using 1(2) by simp
    qed
  next
    case False
    note n = this
    show ?thesis
    proof (cases "m < 10")
      case True
      then have "length (str m) = 1" by (subst str.simps) simp
      moreover from n have "2 \<le> length (str n)" by (rule str_length_ge2)
      ultimately show ?thesis using 1(2) by simp
    next
      case False
      from n False 1(2)
      have e: "str (n div 10) @ [digit_char (n mod 10)] = str (m div 10) @ [digit_char (m mod 10)]"
        by (simp add: str.simps [of n] str.simps [of m])
      then have "str (n div 10) = str (m div 10)" and d: "digit_char (n mod 10) = digit_char (m mod 10)"
        by simp_all
      with n 1(1) have "n div 10 = m div 10" by blast
      moreover have "n mod 10 = m mod 10"
        using d by (intro digit_char_inj) simp_all
      ultimately show ?thesis by (metis div_mult_mod_eq)
    qed
  qed
qed

section \<open>Paths and their components\<close>

lemma components_plain:
  assumes "x \<noteq> []" and "CHR ''/'' \<notin> set x"
  shows "components x = [x]"
proof (cases x)
  case Nil
  with assms show ?thesis by simp
next
  case (Cons c cs)
  with assms have c: "c \<noteq> CHR ''/''" and cs: "\<forall>y\<in>set cs. y \<noteq> CHR ''/''" by auto
  from cs have t: "takeWhile (\<lambda>x. x \<noteq> CHR ''/'') cs = cs" by simp
  from cs have d: "dropWhile (\<lambda>x. x \<noteq> CHR ''/'') cs = []" by simp
  show ?thesis unfolding Cons by (simp only: components.simps c if_False t d)
qed

lemma components_append_slash: "components (a @ CHR ''/'' # b) = components a @ components b"
proof (induction a rule: components.induct)
  case 1
  show ?case by (simp add: components.simps)
next
  case (2 c cs)
  show ?case
  proof (cases "c = CHR ''/''")
    case True
    with 2 show ?thesis by (simp add: components.simps)
  next
    case False
    define t where "t = takeWhile (\<lambda>x. x \<noteq> CHR ''/'') cs"
    define d where "d = dropWhile (\<lambda>x. x \<noteq> CHR ''/'') cs"
    have t1: "takeWhile (\<lambda>x. x \<noteq> CHR ''/'') (cs @ CHR ''/'' # b) = t"
      unfolding t_def by (induction cs) auto
    have d1: "dropWhile (\<lambda>x. x \<noteq> CHR ''/'') (cs @ CHR ''/'' # b) = d @ CHR ''/'' # b"
      unfolding d_def by (induction cs) auto
    from False 2(2) have ih: "components (d @ CHR ''/'' # b) = components d @ components b"
      unfolding d_def by simp
    have l: "components ((c # cs) @ CHR ''/'' # b) = (c # t) # components d @ components b"
      using False by (simp add: components.simps t1 d1 ih)
    have r: "components (c # cs) = (c # t) # components d"
      using False by (simp add: components.simps t_def d_def)
    show ?thesis using l r by simp
  qed
qed

lemma components_join:
  assumes "name \<noteq> []" and "CHR ''/'' \<notin> set name"
  shows "components (join d name) = components d @ [name]"
proof -
  from assms have h: "hd name \<noteq> CHR ''/''" by (cases name) auto
  show ?thesis
  proof (cases "d = [] \<or> last d = CHR ''/''")
    case False
    with h assms show ?thesis
      by (simp add: join_def components_append_slash components_plain)
  next
    case True
    show ?thesis
    proof (cases "d = []")
      case True
      with h assms show ?thesis by (simp add: join_def components_plain)
    next
      case False
      with True have "d = butlast d @ [CHR ''/'']" by (metis append_butlast_last_id)
      then obtain d' where d: "d = d' @ [CHR ''/'']" ..
      have a: "components (d' @ CHR ''/'' # name) = components d' @ [name]"
        using assms by (simp add: components_append_slash components_plain)
      have b: "components (d' @ CHR ''/'' # []) = components d'"
        by (simp only: components_append_slash components.simps append_Nil2)
      from h assms have j: "join d name = d' @ CHR ''/'' # name" unfolding d by (simp add: join_def)
      show ?thesis unfolding j a using b unfolding d by simp
    qed
  qed
qed

lemma join_nonempty: "name \<noteq> [] \<Longrightarrow> join d name \<noteq> []"
  by (auto simp: join_def)

lemma last_join: "name \<noteq> [] \<Longrightarrow> last (join d name) = last name"
  by (auto simp: join_def)

lemma lookup_snoc:
  "lookup fs (p @ [c]) = (case lookup fs p of Some (Dir es) \<Rightarrow> map_of es c | _ \<Rightarrow> None)"
proof (induction p arbitrary: fs)
  case Nil
  show ?case by (cases fs) (auto split: option.splits)
next
  case (Cons a p)
  show ?case by (cases fs) (auto simp: Cons split: option.splits)
qed

lemma exists_join:
  assumes "name \<noteq> []" and "CHR ''/'' \<notin> set name"
  shows "exists_path fs (join d name) \<longleftrightarrow> lookup fs (components d @ [name]) \<noteq> None"
proof -
  from assms have "last name \<noteq> CHR ''/''" by (metis last_in_set)
  with assms show ?thesis
    by (auto simp: exists_path_def stat_def join_nonempty last_join components_join
             split: option.splits node.splits)
qed

lemma basename_eq: "basename p = rev (takeWhile (\<lambda>x. x \<noteq> CHR ''/'') (rev p))"
proof (cases "CHR ''/'' \<in> set p")
  case False
  then have "rev (takeWhile (\<lambda>x. x \<noteq> CHR ''/'') (rev p)) = p"
    by (subst takeWhile_eq_all_conv [THEN iffD2]) auto
  with False show ?thesis by (simp add: basename_def rfind_def)
next
  case True
  define k where "k = length (takeWhile (\<lambda>x. x \<noteq> CHR ''/'') (rev p))"
  have kl: "k \<le> length p" unfolding k_def by (metis length_rev length_takeWhile_le)
  have "takeWhile (\<lambda>x. x \<noteq> CHR ''/'') (rev p) = take k (rev p)"
    unfolding k_def by (rule takeWhile_eq_take)
  also have "\<dots> = rev (drop (length p - k) p)" by (rule take_rev)
  finally have e: "rev (takeWhile (\<lambda>x. x \<noteq> CHR ''/'') (rev p)) = drop (length p - k) p" by simp
  from kl have "nat (int (length p) - 1 - int k + 1) = length p - k" by simp
  with True e show ?thesis by (simp add: basename_def rfind_def k_def Let_def)
qed

lemma basename_no_slash: "CHR ''/'' \<notin> set (basename p)"
  unfolding basename_eq by (auto dest: set_takeWhileD)

lemma splitext_append: "fst (splitext p) @ snd (splitext p) = p"
  by (simp add: splitext_def Let_def)

lemma splitext_no_slash:
  assumes "CHR ''/'' \<notin> set p"
  shows "CHR ''/'' \<notin> set (fst (splitext p))" and "CHR ''/'' \<notin> set (snd (splitext p))"
proof -
  have "set (fst (splitext p)) \<union> set (snd (splitext p)) = set p"
    by (metis set_append splitext_append)
  with assms show "CHR ''/'' \<notin> set (fst (splitext p))" and "CHR ''/'' \<notin> set (snd (splitext p))"
    by auto
qed

lemma probe_path_name: "probe_path d base ext n = join d (probe_name base ext n)"
  by (simp add: probe_path_def probe_name_def)

lemma probe_name_inj: "probe_name base ext n = probe_name base ext m \<Longrightarrow> n = m"
  by (auto simp: probe_name_def dest: str_inj)

lemma probe_name_nonempty: "probe_name base ext n \<noteq> []"
  by (simp add: probe_name_def)

lemma probe_name_no_slash:
  "CHR ''/'' \<notin> set base \<Longrightarrow> CHR ''/'' \<notin> set ext \<Longrightarrow> CHR ''/'' \<notin> set (probe_name base ext n)"
  by (simp add: probe_name_def str_no_slash)


lemma finite_probes:
  assumes "CHR ''/'' \<notin> set base" and "CHR ''/'' \<notin> set ext"
  shows "finite {n. exists_path fs (probe_path d base ext n)}"
proof (cases "lookup fs (components d)")
  case None
  then have "{n. exists_path fs (probe_path d base ext n)} = {}"
    using assms
    by (auto simp: probe_path_name exists_join probe_name_nonempty probe_name_no_slash lookup_snoc)
  then show ?thesis by simp
next
  case (Some node)
  show ?thesis
  proof (cases node)
    case (File content)
    with Some have "{n. exists_path fs (probe_path d base ext n)} = {}"
      using assms
      by (auto simp: probe_path_name exists_join probe_name_nonempty probe_name_no_slash lookup_snoc)
    then show ?thesis by simp
  next
    case (Dir es)
    with Some have "{n. exists_path fs (probe_path d base ext n)}
        \<subseteq> probe_name base ext -` (fst ` set es)"
      using assms
      by (simp add: probe_path_name exists_join probe_name_nonempty probe_name_no_slash lookup_snoc
                    map_of_eq_None_iff subset_iff)
    moreover have "finite (probe_name base ext -` (fst ` set es))"
      by (rule finite_vimageI) (auto intro: injI dest: probe_name_inj)
    ultimately show ?thesis by (rule finite_subset)
  qed
qed

lemma free_probe:
  assumes "CHR ''/'' \<notin> set base" and "CHR ''/'' \<notin> set ext"
  shows "\<exists>m\<ge>k. \<not> exists_path fs (probe_path d base ext m)"
proof (rule ccontr)
  assume "\<not> ?thesis"
  then have "{k..} \<subseteq> {n. exists_path fs (probe_path d base ext n)}" by auto
  with finite_probes [OF assms] have "finite {k..}" by (rule rev_finite_subset)
  then show False by (simp add: infinite_Ici)
qed

lemma probe_loop_first:
  assumes "\<not> exists_path fs (probe_path d base ext m)"
    and "k \<le> m"
    and "\<forall>j. k \<le> j \<and> j < m \<longrightarrow> exists_path fs (probe_path d base ext j)"
    and "exists_path fs dest_path"
  shows "probe_loop fs d base ext dest_path k = Some (probe_path d base ext m)"
  using assms
proof (induction "m - k" arbitrary: k dest_path)
  case 0
  then have "k = m" by simp
  with 0 show ?case
    by (simp add: probe_loop.simps [of fs d base ext dest_path]
                  probe_loop.simps [of fs d base ext "probe_path d base ext m"])
next
  case (Suc x)
  then have lt: "k < m" by simp
  with Suc.prems have ex: "exists_path fs (probe_path d base ext k)" by simp
  have "probe_loop fs d base ext (probe_path d base ext k) (k + 1) = Some (probe_path d base ext m)"
  proof (rule Suc.hyps(1))
    show "x = m - (k + 1)" using Suc.hyps(2) by simp
    show "\<not> exists_path fs (probe_path d base ext m)" by (rule Suc.prems(1))
    show "k + 1 \<le> m" using lt by simp
    show "\<forall>j. k + 1 \<le> j \<and> j < m \<longrightarrow> exists_path fs (probe_path d base ext j)"
      using Suc.prems(3) by simp
    show "exists_path fs (probe_path d base ext k)" by (rule ex)
  qed
  with Suc.prems(4) show ?case
    by (simp add: probe_loop.simps [of fs d base ext dest_path])
qed

section \<open>The destination of one source\<close>

lemma resolve_dest_free:
  "\<not> exists_path fs (join d (basename src)) \<Longrightarrow> resolve_dest fs d src = Some (join d (basename src))"
  by (simp add: resolve_dest_def Let_def)

lemma resolve_dest_collision:
  assumes "exists_path fs (join d (basename src))"
  shows "\<exists>n\<ge>1. resolve_dest fs d src
            = Some (probe_path d (fst (splitext (basename src))) (snd (splitext (basename src))) n)
          \<and> \<not> exists_path fs (probe_path d (fst (splitext (basename src))) (snd (splitext (basename src))) n)
          \<and> (\<forall>k. 1 \<le> k \<and> k < n \<longrightarrow>
                exists_path fs (probe_path d (fst (splitext (basename src))) (snd (splitext (basename src))) k))"
proof -
  define base where "base = fst (splitext (basename src))"
  define ext where "ext = snd (splitext (basename src))"
  define P where "P m \<longleftrightarrow> 1 \<le> m \<and> \<not> exists_path fs (probe_path d base ext m)" for m
  have b: "CHR ''/'' \<notin> set base" and e: "CHR ''/'' \<notin> set ext"
    unfolding base_def ext_def using basename_no_slash by (auto dest: splitext_no_slash)
  from free_probe [OF b e, of 1 fs d] have "\<exists>m. P m" unfolding P_def by blast
  then obtain m where "P m" ..
  define n where "n = (LEAST m. P m)"
  have n: "P n" unfolding n_def using \<open>P m\<close> by (rule LeastI)
  have least: "\<not> P k" if "k < n" for k using that unfolding n_def by (rule not_less_Least)
  have "probe_loop fs d base ext (join d (basename src)) 1 = Some (probe_path d base ext n)"
  proof (rule probe_loop_first)
    show "\<not> exists_path fs (probe_path d base ext n)" using n by (simp add: P_def)
    show "1 \<le> n" using n by (simp add: P_def)
    show "\<forall>j. 1 \<le> j \<and> j < n \<longrightarrow> exists_path fs (probe_path d base ext j)"
      using least by (auto simp: P_def)
    show "exists_path fs (join d (basename src))" by (rule assms)
  qed
  then have "resolve_dest fs d src = Some (probe_path d base ext n)"
    using assms by (simp add: resolve_dest_def Let_def base_def ext_def case_prod_beta)
  moreover have "\<not> exists_path fs (probe_path d base ext n)" using n by (simp add: P_def)
  moreover have "\<forall>k. 1 \<le> k \<and> k < n \<longrightarrow> exists_path fs (probe_path d base ext k)"
    using least by (auto simp: P_def)
  moreover have "1 \<le> n" using n by (simp add: P_def)
  ultimately show ?thesis unfolding base_def ext_def by blast
qed

lemma resolve_dest_total: "\<exists>p. resolve_dest fs d src = Some p \<and> \<not> exists_path fs p"
proof (cases "exists_path fs (join d (basename src))")
  case True
  from resolve_dest_collision [OF True] show ?thesis by blast
next
  case False
  then show ?thesis by (simp add: resolve_dest_free)
qed


section \<open>The paste loop\<close>

lemma paste_item_total: "\<exists>r. paste_item st d src = Some r"
  using resolve_dest_total [of "files st" d src] by (auto simp: paste_item_def)

lemma paste_loop_total: "\<exists>r. paste_loop st d urls = Some r"
proof (induction urls arbitrary: st)
  case Nil
  show ?case by simp
next
  case (Cons u urls)
  from paste_item_total obtain r where r: "paste_item st d u = Some r" by blast
  show ?case
  proof (cases r)
    case (Inl e)
    with r show ?thesis by simp
  next
    case (Inr fs')
    with r Cons [of "st\<lparr>files := fs'\<rparr>"] show ?thesis by simp
  qed
qed

lemma paste_loop_marks:
  "paste_loop st d urls = Some (st', e) \<Longrightarrow>
     is_cut_operation st' = is_cut_operation st \<and> cut_paths st' = cut_paths st
     \<and> clipboard st' = clipboard st"
proof (induction urls arbitrary: st)
  case Nil
  then show ?case by simp
next
  case (Cons u urls)
  from paste_item_total obtain r where r: "paste_item st d u = Some r" by blast
  show ?case
  proof (cases r)
    case (Inl x)
    with r Cons.prems show ?thesis by simp
  next
    case (Inr fs')
    with r Cons.prems have "paste_loop (st\<lparr>files := fs'\<rparr>) d urls = Some (st', e)" by simp
    from Cons.IH [OF this] show ?thesis by simp
  qed
qed


lemma action_paste_total: "\<exists>r. action_paste st d = Some r"
proof (cases "clipboard st")
  case None
  then show ?thesis by (simp add: action_paste_def)
next
  case (Some urls)
  from paste_loop_total obtain st' e where "paste_loop st d urls = Some (st', e)" by fastforce
  with Some show ?thesis by (cases e) (simp_all add: action_paste_def)
qed


section \<open>Lookups in a changed tree\<close>

text \<open>
  What \<open>put\<close>, \<open>put_mk\<close> and \<open>remove\<close> do to the node found at a path \<open>p\<close>, by the position
  of \<open>p\<close> relative to the path \<open>q\<close> they work at: beside it, above it, or below it.
\<close>

lemma lookup_None_append: "lookup fs q = None \<Longrightarrow> lookup fs (q @ r) = None"
  by (induction fs q rule: lookup.induct) (auto split: option.splits)

lemma lookup_File_append: "lookup fs q = Some (File c) \<Longrightarrow> r \<noteq> [] \<Longrightarrow> lookup fs (q @ r) = None"
  by (induction fs q rule: lookup.induct) (auto split: option.splits simp: neq_Nil_conv)

lemma lookup_prefix_exists:
  assumes "lookup fs p = Some n" and "prefix q p"
  shows "lookup fs q \<noteq> None"
proof
  assume "lookup fs q = None"
  moreover from assms(2) obtain r where "p = q @ r" by (auto simp: prefix_def)
  ultimately have "lookup fs p = None" by (simp add: lookup_None_append)
  with assms(1) show False by simp
qed

lemma lookup_strict_prefix_dir:
  assumes "lookup fs p = Some n" and "strict_prefix q p"
  shows "\<exists>es. lookup fs q = Some (Dir es)"
proof -
  from assms(2) obtain r where p: "p = q @ r" and r: "r \<noteq> []"
    by (auto simp: strict_prefix_def prefix_def)
  show ?thesis
  proof (cases "lookup fs q")
    case None
    with assms(1) p show ?thesis by (simp add: lookup_None_append)
  next
    case (Some m)
    show ?thesis
    proof (cases m)
      case (File c)
      with Some assms(1) p r show ?thesis by (simp add: lookup_File_append)
    next
      case (Dir es)
      with Some show ?thesis by simp
    qed
  qed
qed

lemma put_lookup_other:
  "put fs q new = Inr fs' \<Longrightarrow> \<not> prefix q p \<Longrightarrow> \<not> prefix p q \<Longrightarrow> lookup fs' p = lookup fs p"
proof (induction fs q new arbitrary: fs' p rule: put.induct)
  case (1 n new)
  then show ?case by simp
next
  case (2 content c cs new)
  then show ?case by simp
next
  case (3 es c cs new)
  from "3.prems" obtain a as where p: "p = a # as" by (cases p) auto
  show ?case
  proof (cases "cs = []")
    case True
    with "3.prems" p show ?thesis by (auto simp: update_conv')
  next
    case False
    with "3.prems" obtain m m' where m: "map_of es c = Some m" and m': "put m cs new = Inr m'"
      and fs': "fs' = Dir (AList.update c m' es)"
      by (auto split: option.splits sum.splits)
    show ?thesis
    proof (cases "a = c")
      case True
      with "3.prems" p have "\<not> prefix cs as" "\<not> prefix as cs" by auto
      with "3.IH" [OF False m m'] have "lookup m' as = lookup m as" by blast
      with True p fs' m show ?thesis by (simp add: update_conv')
    next
      case False
      with p fs' show ?thesis by (simp add: update_conv')
    qed
  qed
qed

lemma put_lookup_prefix:
  "put fs q new = Inr fs' \<Longrightarrow> strict_prefix p q \<Longrightarrow>
     \<exists>es es'. lookup fs p = Some (Dir es) \<and> lookup fs' p = Some (Dir es')"
proof (induction fs q new arbitrary: fs' p rule: put.induct)
  case (1 n new)
  then show ?case by simp
next
  case (2 content c cs new)
  then show ?case by simp
next
  case (3 es c cs new)
  show ?case
  proof (cases p)
    case Nil
    with "3.prems" show ?thesis by (auto split: if_splits option.splits sum.splits)
  next
    case (Cons a as)
    with "3.prems" have a: "a = c" and s: "strict_prefix as cs" by auto
    then have ne: "cs \<noteq> []" by auto
    with "3.prems" obtain m m' where m: "map_of es c = Some m" and m': "put m cs new = Inr m'"
      and fs': "fs' = Dir (AList.update c m' es)"
      by (auto split: option.splits sum.splits)
    from "3.IH" [OF ne m m' s] Cons a m fs' show ?thesis by (simp add: update_conv')
  qed
qed

lemma put_lookup_below:
  "put fs q new = Inr fs' \<Longrightarrow> lookup fs' (q @ r) = lookup new r"
proof (induction fs q new arbitrary: fs' rule: put.induct)
  case (1 n new)
  then show ?case by simp
next
  case (2 content c cs new)
  then show ?case by simp
next
  case (3 es c cs new)
  show ?case
  proof (cases "cs = []")
    case True
    with "3.prems" show ?thesis by (auto simp: update_conv')
  next
    case False
    with "3.prems" obtain m m' where m: "map_of es c = Some m" and m': "put m cs new = Inr m'"
      and fs': "fs' = Dir (AList.update c m' es)"
      by (auto split: option.splits sum.splits)
    from "3.IH" [OF False m m'] fs' show ?thesis by (simp add: update_conv')
  qed
qed

lemma lookup_mk_chain_prefix:
  "strict_prefix p q \<Longrightarrow> \<exists>es. lookup (mk_chain q new) p = Some (Dir es)"
proof (induction q arbitrary: p)
  case Nil
  then show ?case by simp
next
  case (Cons c cs)
  show ?case
  proof (cases p)
    case Nil
    then show ?thesis by simp
  next
    case (Cons a as)
    with Cons.prems have "a = c" "strict_prefix as cs" by auto
    with Cons.IH [of as] Cons show ?thesis by simp
  qed
qed

lemma lookup_mk_chain_below: "lookup (mk_chain q new) (q @ r) = lookup new r"
  by (induction q) auto

lemma lookup_mk_chain_other:
  "\<not> prefix q p \<Longrightarrow> \<not> prefix p q \<Longrightarrow> lookup (mk_chain q new) p = None"
proof (induction q arbitrary: p)
  case Nil
  then show ?case by simp
next
  case (Cons c cs)
  then obtain a as where p: "p = a # as" by (cases p) auto
  with Cons show ?case by (cases "a = c") auto
qed

lemma put_mk_fresh: "put_mk fs q new = Inr fs' \<Longrightarrow> lookup fs q = None"
  by (induction fs q new arbitrary: fs' rule: put_mk.induct)
     (auto split: option.splits sum.splits)

lemma put_mk_lookup_other:
  "put_mk fs q new = Inr fs' \<Longrightarrow> \<not> prefix q p \<Longrightarrow> \<not> prefix p q \<Longrightarrow> lookup fs' p = lookup fs p"
proof (induction fs q new arbitrary: fs' p rule: put_mk.induct)
  case (1 n new)
  then show ?case by simp
next
  case (2 content c cs new)
  then show ?case by simp
next
  case (3 es c cs new)
  from "3.prems" obtain a as where p: "p = a # as" by (cases p) auto
  show ?case
  proof (cases "map_of es c")
    case None
    with "3.prems" have fs': "fs' = Dir (AList.update c (mk_chain cs new) es)" by simp
    show ?thesis
    proof (cases "a = c")
      case True
      with "3.prems" p have "\<not> prefix cs as" "\<not> prefix as cs" by auto
      then have "lookup (mk_chain cs new) as = None" by (rule lookup_mk_chain_other)
      with True p fs' None show ?thesis by (simp add: update_conv')
    next
      case False
      with p fs' show ?thesis by (simp add: update_conv')
    qed
  next
    case (Some m)
    with "3.prems" obtain m' where m': "put_mk m cs new = Inr m'"
      and fs': "fs' = Dir (AList.update c m' es)"
      by (auto split: sum.splits)
    show ?thesis
    proof (cases "a = c")
      case True
      with "3.prems" p have "\<not> prefix cs as" "\<not> prefix as cs" by auto
      with "3.IH" [OF Some m'] have "lookup m' as = lookup m as" by blast
      with True p fs' Some show ?thesis by (simp add: update_conv')
    next
      case False
      with p fs' show ?thesis by (simp add: update_conv')
    qed
  qed
qed

lemma put_mk_lookup_prefix:
  "put_mk fs q new = Inr fs' \<Longrightarrow> strict_prefix p q \<Longrightarrow>
     (lookup fs p = None \<or> (\<exists>es. lookup fs p = Some (Dir es)))
     \<and> (\<exists>es'. lookup fs' p = Some (Dir es'))"
proof (induction fs q new arbitrary: fs' p rule: put_mk.induct)
  case (1 n new)
  then show ?case by simp
next
  case (2 content c cs new)
  then show ?case by simp
next
  case (3 es c cs new)
  show ?case
  proof (cases p)
    case Nil
    with "3.prems" show ?thesis by (auto split: option.splits sum.splits)
  next
    case (Cons a as)
    with "3.prems" have a: "a = c" and s: "strict_prefix as cs" by auto
    show ?thesis
    proof (cases "map_of es c")
      case None
      with "3.prems" have fs': "fs' = Dir (AList.update c (mk_chain cs new) es)" by simp
      from lookup_mk_chain_prefix [OF s] Cons a None fs' show ?thesis
        by (simp add: update_conv')
    next
      case (Some m)
      with "3.prems" obtain m' where m': "put_mk m cs new = Inr m'"
        and fs': "fs' = Dir (AList.update c m' es)"
        by (auto split: sum.splits)
      from "3.IH" [OF Some m' s] Cons a Some fs' show ?thesis by (simp add: update_conv')
    qed
  qed
qed

lemma put_mk_lookup_below:
  "put_mk fs q new = Inr fs' \<Longrightarrow> lookup fs' (q @ r) = lookup new r"
proof (induction fs q new arbitrary: fs' rule: put_mk.induct)
  case (1 n new)
  then show ?case by simp
next
  case (2 content c cs new)
  then show ?case by simp
next
  case (3 es c cs new)
  show ?case
  proof (cases "map_of es c")
    case None
    with "3.prems" show ?thesis by (auto simp: update_conv' lookup_mk_chain_below)
  next
    case (Some m)
    with "3.prems" obtain m' where m': "put_mk m cs new = Inr m'"
      and fs': "fs' = Dir (AList.update c m' es)"
      by (auto split: sum.splits)
    from "3.IH" [OF Some m'] fs' show ?thesis by (simp add: update_conv')
  qed
qed

lemma remove_lookup_None: "lookup fs p = None \<Longrightarrow> lookup (remove fs q) p = None"
proof (induction fs q arbitrary: p rule: remove.induct)
  case (1 n)
  then show ?case by simp
next
  case (2 content c cs)
  then show ?case by simp
next
  case (3 es c cs)
  from "3.prems" obtain a as where p: "p = a # as" by (cases p) auto
  show ?case
  proof (cases "cs = []")
    case True
    with "3.prems" p show ?thesis by (auto simp: delete_conv' split: option.splits)
  next
    case False
    show ?thesis
    proof (cases "map_of es c")
      case None
      with False "3.prems" show ?thesis by simp
    next
      case (Some m)
      show ?thesis
      proof (cases "a = c")
        case True
        with "3.prems" p Some have "lookup m as = None" by simp
        with "3.IH" [OF False Some] have "lookup (remove m cs) as = None" by blast
        with True p False Some show ?thesis by (simp add: update_conv')
      next
        case False
        with "3.prems" p \<open>cs \<noteq> []\<close> Some show ?thesis by (simp add: update_conv')
      qed
    qed
  qed
qed

lemma remove_lookup_self: "q \<noteq> [] \<Longrightarrow> lookup (remove fs q) q = None"
proof (induction fs q rule: remove.induct)
  case (1 n)
  then show ?case by simp
next
  case (2 content c cs)
  then show ?case by simp
next
  case (3 es c cs)
  show ?case
  proof (cases "cs = []")
    case True
    then show ?thesis by (simp add: delete_conv')
  next
    case False
    with "3.IH" show ?thesis by (auto simp: update_conv' split: option.splits)
  qed
qed

lemma remove_lookup_other:
  "\<not> prefix q p \<Longrightarrow> \<not> prefix p q \<Longrightarrow> lookup (remove fs q) p = lookup fs p"
proof (induction fs q arbitrary: p rule: remove.induct)
  case (1 n)
  then show ?case by simp
next
  case (2 content c cs)
  then show ?case by simp
next
  case (3 es c cs)
  from "3.prems" obtain a as where p: "p = a # as" by (cases p) auto
  show ?case
  proof (cases "cs = []")
    case True
    with "3.prems" p show ?thesis by (auto simp: delete_conv')
  next
    case False
    show ?thesis
    proof (cases "map_of es c")
      case None
      with False show ?thesis by simp
    next
      case (Some m)
      show ?thesis
      proof (cases "a = c")
        case True
        with "3.prems" p have "\<not> prefix cs as" "\<not> prefix as cs" by auto
        with "3.IH" [OF False Some] have "lookup (remove m cs) as = lookup m as" by blast
        with True p False Some show ?thesis by (simp add: update_conv')
      next
        case False
        with p \<open>cs \<noteq> []\<close> Some show ?thesis by (simp add: update_conv')
      qed
    qed
  qed
qed

section \<open>What the calls do to the tree\<close>

text \<open>
  A destination that \<open>resolve_dest\<close> returns does not exist, and its components are those
  of the destination directory, followed by at most one name. Called with such a
  destination, a successful \<open>copy2\<close>, \<open>copytree\<close> or \<open>move\<close> is a \<open>put\<close> or \<open>put_mk\<close> at a path that held nothing,
  after or before a \<open>remove\<close> of the source in the case of \<open>move\<close>.
\<close>

lemma components_snoc_slash: "components (d @ [CHR ''/'']) = components d"
proof -
  have "components (d @ CHR ''/'' # []) = components d @ components []"
    by (rule components_append_slash)
  then show ?thesis by simp
qed

lemma components_join_empty: "components (join d []) = components d"
  by (simp add: join_def components_snoc_slash)

lemma components_join_cases:
  assumes "CHR ''/'' \<notin> set name"
  shows "components (join d name) = components d \<or> components (join d name) = components d @ [name]"
proof (cases "name = []")
  case True
  then show ?thesis by (simp add: components_join_empty)
next
  case False
  with assms show ?thesis by (simp add: components_join)
qed

lemma resolve_dest_components:
  assumes "resolve_dest fs d src = Some dst"
  shows "components dst = components d \<or> (\<exists>name. components dst = components d @ [name])"
proof (cases "exists_path fs (join d (basename src))")
  case False
  with assms have "dst = join d (basename src)" by (simp add: resolve_dest_free)
  with components_join_cases [OF basename_no_slash, of d src] show ?thesis by blast
next
  case True
  from resolve_dest_collision [OF True] assms obtain n where
    "dst = probe_path d (fst (splitext (basename src))) (snd (splitext (basename src))) n"
    by auto
  moreover have "CHR ''/'' \<notin> set (fst (splitext (basename src)))"
    and "CHR ''/'' \<notin> set (snd (splitext (basename src)))"
    using basename_no_slash by (auto dest: splitext_no_slash)
  ultimately show ?thesis
    by (simp add: probe_path_name components_join probe_name_nonempty probe_name_no_slash)
qed

lemma resolve_dest_fresh: "resolve_dest fs d src = Some dst \<Longrightarrow> \<not> exists_path fs dst"
  using resolve_dest_total [of fs d src] by auto

lemma stat_lookup: "stat fs p = Some n \<Longrightarrow> lookup fs (components p) = Some n"
  by (auto simp: stat_def split: if_splits option.splits node.splits)

lemma stat_File_components: "stat fs p = Some (File c) \<Longrightarrow> components p \<noteq> []"
proof
  assume s: "stat fs p = Some (File c)" and e: "components p = []"
  from s have ne: "p \<noteq> []" and l: "last p \<noteq> CHR ''/''"
    by (auto simp: stat_def split: if_splits option.splits node.splits)
  then obtain x xs where p: "p = xs @ [x]" by (metis append_butlast_last_id)
  with l have x: "x \<noteq> CHR ''/''" by simp
  have "components (xs @ [x]) \<noteq> []"
  proof (induction xs rule: components.induct)
    case 1
    from x show ?case by (simp add: components.simps)
  next
    case (2 c cs)
    then show ?case by (cases "c = CHR ''/''") (simp_all add: components.simps)
  qed
  with e p show False by simp
qed

lemma not_exists_lookup:
  assumes "\<not> exists_path fs dst" and "dst \<noteq> []"
  shows "lookup fs (components dst) = None
         \<or> (\<exists>c. lookup fs (components dst) = Some (File c) \<and> last dst = CHR ''/'')"
  using assms by (auto simp: exists_path_def stat_def split: option.splits node.splits if_splits)

lemma lookup_None_not_exists: "lookup fs (components p) = None \<Longrightarrow> \<not> exists_path fs p"
  by (simp add: exists_path_def stat_def)

lemma not_exists_not_isdir: "\<not> exists_path fs p \<Longrightarrow> \<not> isdir fs p"
  by (simp add: exists_path_def isdir_def)

lemma write_file_effect:
  assumes "write_file fs dst content = Inr fs'" and "\<not> exists_path fs dst"
  shows "lookup fs (components dst) = None \<and> put fs (components dst) (File content) = Inr fs'"
proof -
  from assms(1) have ne: "dst \<noteq> []" by (auto simp: write_file_def split: if_splits)
  from not_exists_lookup [OF assms(2) ne] assms(1) ne show ?thesis
    by (auto simp: write_file_def split: if_splits)
qed

lemma copy2_effect:
  assumes "copy2 fs src dst = Inr fs'" and "\<not> exists_path fs dst"
  shows "\<exists>content. stat fs src = Some (File content) \<and> lookup fs (components dst) = None
           \<and> put fs (components dst) (File content) = Inr fs'"
proof -
  from assms have c: "copyfile fs src dst = Inr fs'"
    by (simp add: copy2_def not_exists_not_isdir)
  then obtain content where s: "stat fs src = Some (File content)"
    and w: "write_file fs dst content = Inr fs'"
    by (auto simp: copyfile_def split: if_splits option.splits node.splits)
  from write_file_effect [OF w assms(2)] s show ?thesis by blast
qed

lemma copytree_effect:
  assumes "copytree fs src dst = Inr fs'"
  shows "\<exists>es. stat fs src = Some (Dir es) \<and> lookup fs (components dst) = None
           \<and> put_mk fs (components dst) (Dir es) = Inr fs'"
proof -
  from assms obtain es where s: "stat fs src = Some (Dir es)"
    and p: "put_mk fs (components dst) (Dir es) = Inr fs'"
    by (auto simp: copytree_def Let_def split: if_splits option.splits node.splits sum.splits)
  from put_mk_fresh [OF p] s p show ?thesis by blast
qed

lemma os_rename_effect:
  assumes "os_rename fs src dst = Inr fs'" and "\<not> exists_path fs dst"
  shows "\<exists>n. stat fs src = Some n \<and> components src \<noteq> []
           \<and> \<not> prefix (components src) (components dst)
           \<and> lookup fs (components dst) = None
           \<and> put (remove fs (components src)) (components dst) n = Inr fs'"
proof -
  from assms(1) obtain n where s: "stat fs src = Some n"
    by (auto simp: os_rename_def split: option.splits)
  from assms(1) s have ne: "dst \<noteq> []"
    by (auto simp: os_rename_def Let_def split: if_splits)
  from assms(1) s ne have nf: "\<not> (case n of File content \<Rightarrow> last dst = CHR ''/'' | Dir es \<Rightarrow> False)"
    by (auto simp: os_rename_def Let_def split: if_splits)
  from stat_lookup [OF s] have l: "lookup fs (components src) = Some n" .
  have q: "lookup fs (components dst) = None"
  proof (rule ccontr)
    assume "lookup fs (components dst) \<noteq> None"
    with not_exists_lookup [OF assms(2) ne] obtain c where
      c: "lookup fs (components dst) = Some (File c)" and t: "last dst = CHR ''/''" by auto
    show False
    proof (cases n)
      case (File content)
      with nf t show False by simp
    next
      case (Dir es)
      with assms(1) s ne c l show False
        by (auto simp: os_rename_def Let_def split: if_splits)
    qed
  qed
  with l have neq: "components src \<noteq> components dst" by auto
  from assms(1) s ne nf neq q show ?thesis
    by (auto simp: os_rename_def Let_def split: if_splits)
qed

lemma move_effect:
  assumes "move fs src dst = Inr fs'" and "\<not> exists_path fs dst"
  shows "lookup fs (components src) \<noteq> None \<and> components src \<noteq> []
         \<and> \<not> prefix (components src) (components dst)
         \<and> lookup fs (components dst) = None
         \<and> ((\<exists>n. put (remove fs (components src)) (components dst) n = Inr fs')
            \<or> (\<exists>n fs1. put_mk fs (components dst) n = Inr fs1 \<and> fs' = remove fs1 (components src))
            \<or> (\<exists>n fs1. put fs (components dst) n = Inr fs1 \<and> fs' = remove fs1 (components src)))"
proof -
  from assms have m: "move_to fs src dst dst = Inr fs'"
    by (simp add: move_def not_exists_not_isdir)
  show ?thesis
  proof (cases "os_rename fs src dst")
    case (Inr fs1)
    with m have "fs1 = fs'" by (simp add: move_to_def)
    with Inr os_rename_effect [OF _ assms(2), of src fs'] show ?thesis
      by (auto dest: stat_lookup)
  next
    case (Inl e)
    show ?thesis
    proof (cases "isdir fs src")
      case True
      with m Inl obtain fs1 where np: "\<not> prefix (components src) (components dst)"
        and c: "copytree fs src dst = Inr fs1" and fs': "fs' = remove fs1 (components src)"
        by (auto simp: move_to_def destinsrc_def split: if_splits sum.splits)
      from copytree_effect [OF c] obtain es where s: "stat fs src = Some (Dir es)"
        and q: "lookup fs (components dst) = None"
        and p: "put_mk fs (components dst) (Dir es) = Inr fs1" by blast
      from np have "components src \<noteq> []" by auto
      with np q p fs' stat_lookup [OF s] show ?thesis by auto
    next
      case False
      with m Inl obtain fs1 where c: "copy2 fs src dst = Inr fs1"
        and fs': "fs' = remove fs1 (components src)"
        by (auto simp: move_to_def split: if_splits sum.splits)
      from copy2_effect [OF c assms(2)] obtain content where
        s: "stat fs src = Some (File content)" and q: "lookup fs (components dst) = None"
        and p: "put fs (components dst) (File content) = Inr fs1" by blast
      from stat_lookup [OF s] have l: "lookup fs (components src) = Some (File content)" .
      have np: "\<not> prefix (components src) (components dst)"
      proof
        assume pr: "prefix (components src) (components dst)"
        from l q have "components src \<noteq> components dst" by auto
        with pr have "strict_prefix (components src) (components dst)" by (simp add: strict_prefix_def)
        from put_lookup_prefix [OF p this] l show False by auto
      qed
      from stat_File_components [OF s] np q p fs' l show ?thesis by auto
    qed
  qed
qed

section \<open>What a paste keeps and what it removes\<close>

lemma paste_item_Inr:
  assumes "paste_item st d src = Some (Inr fs1)"
  shows "\<exists>dst. \<not> exists_path (files st) dst \<and> transfer st src dst = Inr fs1
           \<and> (components dst = components d \<or> (\<exists>name. components dst = components d @ [name]))"
proof -
  from assms obtain dst where r: "resolve_dest (files st) d src = Some dst"
    and t: "transfer st src dst = Inr fs1"
    by (auto simp: paste_item_def split: option.splits)
  from resolve_dest_fresh [OF r] resolve_dest_components [OF r] t show ?thesis by blast
qed

lemma below_dest_dir:
  assumes "q = cd \<or> (\<exists>name. q = cd @ [name])"
  shows "prefix q p \<Longrightarrow> prefix cd p" and "prefix p q \<Longrightarrow> p \<noteq> q \<Longrightarrow> prefix p cd"
proof -
  from assms have "prefix cd q" by auto
  then show "prefix q p \<Longrightarrow> prefix cd p" by (metis prefix_order.trans)
  from assms show "prefix p q \<Longrightarrow> p \<noteq> q \<Longrightarrow> prefix p cd" by (auto simp: prefix_snoc)
qed

lemma added_lookup_other:
  assumes "(\<exists>new. put fs q new = Inr fs1) \<or> (\<exists>new. put_mk fs q new = Inr fs1)"
    and "\<not> prefix q p" and "\<not> prefix p q"
  shows "lookup fs1 p = lookup fs p"
  using assms by (auto dest: put_lookup_other put_mk_lookup_other)

lemma added_lookup_prefix:
  assumes "(\<exists>new. put fs q new = Inr fs1) \<or> (\<exists>new. put_mk fs q new = Inr fs1)"
    and "strict_prefix p q"
  shows "(lookup fs p = None \<or> (\<exists>es. lookup fs p = Some (Dir es)))
         \<and> (\<exists>es'. lookup fs1 p = Some (Dir es'))"
  using assms put_lookup_prefix [of fs q _ fs1 p] put_mk_lookup_prefix [of fs q _ fs1 p]
  by (elim disjE exE) fastforce+

lemma added_keeps:
  assumes a: "(\<exists>new. put fs q new = Inr fs1) \<or> (\<exists>new. put_mk fs q new = Inr fs1)"
    and q: "lookup fs q = None"
  shows "lookup fs p = Some (File c) \<Longrightarrow> lookup fs1 p = Some (File c)"
    and "lookup fs p = Some (Dir es) \<Longrightarrow> \<not> prefix p q \<Longrightarrow> lookup fs1 p = Some (Dir es)"
    and "lookup fs p = Some (Dir es) \<Longrightarrow> \<exists>es'. lookup fs1 p = Some (Dir es')"
proof -
  have nq: "\<not> prefix q p" if "lookup fs p = Some n" for n
    using lookup_prefix_exists [OF that, of q] q by auto
  show "lookup fs1 p = Some (File c)" if l: "lookup fs p = Some (File c)"
  proof (cases "prefix p q")
    case True
    with l q have "strict_prefix p q" by (auto simp: strict_prefix_def)
    from added_lookup_prefix [OF a this] l show ?thesis by auto
  next
    case False
    from added_lookup_other [OF a nq [OF l] False] l show ?thesis by simp
  qed
  show "lookup fs1 p = Some (Dir es)" if l: "lookup fs p = Some (Dir es)" and np: "\<not> prefix p q"
    using added_lookup_other [OF a nq [OF l] np] l by simp
  show "\<exists>es'. lookup fs1 p = Some (Dir es')" if l: "lookup fs p = Some (Dir es)"
  proof (cases "prefix p q")
    case True
    with l q have "strict_prefix p q" by (auto simp: strict_prefix_def)
    from added_lookup_prefix [OF a this] show ?thesis by blast
  next
    case False
    from added_lookup_other [OF a nq [OF l] False] l show ?thesis by simp
  qed
qed

lemma copy_transfer_adds:
  assumes "transfer st src dst = Inr fs1" and "\<not> is_move st src"
    and "\<not> exists_path (files st) dst"
  shows "lookup (files st) (components dst) = None
         \<and> ((\<exists>new. put (files st) (components dst) new = Inr fs1)
            \<or> (\<exists>new. put_mk (files st) (components dst) new = Inr fs1))"
proof (cases "isdir (files st) src")
  case True
  with assms have "copytree (files st) src dst = Inr fs1" by (simp add: transfer_def)
  from copytree_effect [OF this] show ?thesis by blast
next
  case False
  with assms have "copy2 (files st) src dst = Inr fs1" by (simp add: transfer_def)
  from copy2_effect [OF this assms(3)] show ?thesis by blast
qed

lemma copy_item_keeps:
  assumes i: "paste_item st d src = Some (Inr fs1)" and m: "\<not> is_move st src"
  shows "lookup (files st) p = Some (File c) \<Longrightarrow> lookup fs1 p = Some (File c)"
    and "lookup (files st) p = Some (Dir es) \<Longrightarrow> \<not> prefix p (components d)
           \<Longrightarrow> lookup fs1 p = Some (Dir es)"
    and "lookup (files st) p = Some (Dir es) \<Longrightarrow> \<exists>es'. lookup fs1 p = Some (Dir es')"
proof -
  from paste_item_Inr [OF i] obtain dst where f: "\<not> exists_path (files st) dst"
    and t: "transfer st src dst = Inr fs1"
    and c: "components dst = components d \<or> (\<exists>name. components dst = components d @ [name])"
    by blast
  from copy_transfer_adds [OF t m f]
  have q: "lookup (files st) (components dst) = None"
    and a: "(\<exists>new. put (files st) (components dst) new = Inr fs1)
            \<or> (\<exists>new. put_mk (files st) (components dst) new = Inr fs1)"
    by blast+
  show "lookup (files st) p = Some (File c) \<Longrightarrow> lookup fs1 p = Some (File c)"
    by (rule added_keeps(1) [OF a q])
  show "lookup fs1 p = Some (Dir es)"
    if l: "lookup (files st) p = Some (Dir es)" and np: "\<not> prefix p (components d)"
  proof -
    from l q have "p \<noteq> components dst" by auto
    with below_dest_dir(2) [OF c, of p] np have "\<not> prefix p (components dst)" by blast
    with added_keeps(2) [OF a q l] show ?thesis by blast
  qed
  show "lookup (files st) p = Some (Dir es) \<Longrightarrow> \<exists>es'. lookup fs1 p = Some (Dir es')"
    by (rule added_keeps(3) [OF a q])
qed

lemma copy_loop_keeps:
  "paste_loop st d urls = Some (st', e) \<Longrightarrow> \<not> is_cut_operation st \<Longrightarrow>
     (\<forall>p c. lookup (files st) p = Some (File c) \<longrightarrow> lookup (files st') p = Some (File c))
     \<and> (\<forall>p es. lookup (files st) p = Some (Dir es) \<longrightarrow> \<not> prefix p (components d)
            \<longrightarrow> lookup (files st') p = Some (Dir es))
     \<and> (\<forall>p es. lookup (files st) p = Some (Dir es)
            \<longrightarrow> (\<exists>es'. lookup (files st') p = Some (Dir es')))"
proof (induction urls arbitrary: st)
  case Nil
  then show ?case by simp
next
  case (Cons u urls)
  from paste_item_total obtain r where r: "paste_item st d u = Some r" by blast
  show ?case
  proof (cases r)
    case (Inl x)
    with r Cons.prems have "st' = st" by simp
    then show ?thesis by simp
  next
    case (Inr fs1)
    from Cons.prems(2) have m: "\<not> is_move st u" by (simp add: is_move_def)
    from r Inr Cons.prems(1)
    have l: "paste_loop (st\<lparr>files := fs1\<rparr>) d urls = Some (st', e)" by simp
    from Cons.prems(2) have "\<not> is_cut_operation (st\<lparr>files := fs1\<rparr>)" by simp
    from Cons.IH [OF l this]
    have ih1: "\<And>p c. lookup fs1 p = Some (File c) \<Longrightarrow> lookup (files st') p = Some (File c)"
      and ih2: "\<And>p es. lookup fs1 p = Some (Dir es) \<Longrightarrow> \<not> prefix p (components d)
                  \<Longrightarrow> lookup (files st') p = Some (Dir es)"
      and ih3: "\<And>p es. lookup fs1 p = Some (Dir es) \<Longrightarrow> \<exists>es'. lookup (files st') p = Some (Dir es')"
      by simp_all
    note i = r [unfolded Inr]
    show ?thesis
    proof (intro conjI allI impI)
      fix p c
      assume "lookup (files st) p = Some (File c)"
      from ih1 [OF copy_item_keeps(1) [OF i m this]]
      show "lookup (files st') p = Some (File c)" .
    next
      fix p es
      assume a: "lookup (files st) p = Some (Dir es)" and b: "\<not> prefix p (components d)"
      from ih2 [OF copy_item_keeps(2) [OF i m a b] b]
      show "lookup (files st') p = Some (Dir es)" .
    next
      fix p es
      assume "lookup (files st) p = Some (Dir es)"
      from copy_item_keeps(3) [OF i m this] obtain es1 where "lookup fs1 p = Some (Dir es1)" ..
      from ih3 [OF this] show "\<exists>es'. lookup (files st') p = Some (Dir es')" .
    qed
  qed
qed

lemma moved_gone:
  assumes "paste_item st d src = Some (Inr fs1)" and "is_move st src"
  shows "lookup fs1 (components src) = None \<and> \<not> prefix (components src) (components d)"
proof -
  from paste_item_Inr [OF assms(1)] obtain dst where f: "\<not> exists_path (files st) dst"
    and t: "transfer st src dst = Inr fs1"
    and c: "components dst = components d \<or> (\<exists>name. components dst = components d @ [name])"
    by blast
  from t assms(2) have "move (files st) src dst = Inr fs1" by (simp add: transfer_def)
  from move_effect [OF this f]
  have l: "lookup (files st) (components src) \<noteq> None" and ne: "components src \<noteq> []"
    and np: "\<not> prefix (components src) (components dst)"
    and q: "lookup (files st) (components dst) = None"
    and e: "(\<exists>n. put (remove (files st) (components src)) (components dst) n = Inr fs1)
            \<or> (\<exists>n fs2. put_mk (files st) (components dst) n = Inr fs2
                         \<and> fs1 = remove fs2 (components src))
            \<or> (\<exists>n fs2. put (files st) (components dst) n = Inr fs2
                         \<and> fs1 = remove fs2 (components src))"
    by blast+
  from l obtain n where "lookup (files st) (components src) = Some n" by auto
  from lookup_prefix_exists [OF this, of "components dst"] q
  have nq: "\<not> prefix (components dst) (components src)" by auto
  from e have "lookup fs1 (components src) = None"
  proof (elim disjE exE conjE)
    fix n
    assume "put (remove (files st) (components src)) (components dst) n = Inr fs1"
    from put_lookup_other [OF this nq np] remove_lookup_self [OF ne] show ?thesis by simp
  next
    fix n fs2
    assume "fs1 = remove fs2 (components src)"
    with remove_lookup_self [OF ne] show ?thesis by simp
  next
    fix n fs2
    assume "fs1 = remove fs2 (components src)"
    with remove_lookup_self [OF ne] show ?thesis by simp
  qed
  moreover from c have "prefix (components d) (components dst)" by auto
  with np have "\<not> prefix (components src) (components d)" by (metis prefix_order.trans)
  ultimately show ?thesis by simp
qed

lemma item_keeps_gone:
  assumes i: "paste_item st d u = Some (Inr fs1)"
    and g: "lookup (files st) p = None"
    and n1: "\<not> prefix (components d) p" and n2: "\<not> prefix p (components d)"
  shows "lookup fs1 p = None"
proof -
  from paste_item_Inr [OF i] obtain dst where f: "\<not> exists_path (files st) dst"
    and t: "transfer st u dst = Inr fs1"
    and c: "components dst = components d \<or> (\<exists>name. components dst = components d @ [name])"
    by blast
  from below_dest_dir(1) [OF c, of p] n1 have nq: "\<not> prefix (components dst) p" by blast
  from c n1 have "p \<noteq> components dst" by auto
  with below_dest_dir(2) [OF c, of p] n2 have np: "\<not> prefix p (components dst)" by blast
  show ?thesis
  proof (cases "is_move st u")
    case False
    from copy_transfer_adds [OF t False f]
    have "(\<exists>new. put (files st) (components dst) new = Inr fs1)
          \<or> (\<exists>new. put_mk (files st) (components dst) new = Inr fs1)" by blast
    from added_lookup_other [OF this nq np] g show ?thesis by simp
  next
    case True
    with t have "move (files st) u dst = Inr fs1" by (simp add: transfer_def)
    from move_effect [OF this f]
    have "(\<exists>n. put (remove (files st) (components u)) (components dst) n = Inr fs1)
            \<or> (\<exists>n fs2. put_mk (files st) (components dst) n = Inr fs2
                         \<and> fs1 = remove fs2 (components u))
            \<or> (\<exists>n fs2. put (files st) (components dst) n = Inr fs2
                         \<and> fs1 = remove fs2 (components u))"
      by blast
    then show ?thesis
    proof (elim disjE exE conjE)
      fix n
      assume "put (remove (files st) (components u)) (components dst) n = Inr fs1"
      from put_lookup_other [OF this nq np] remove_lookup_None [OF g] show ?thesis by simp
    next
      fix n fs2
      assume a: "put_mk (files st) (components dst) n = Inr fs2"
        and b: "fs1 = remove fs2 (components u)"
      from put_mk_lookup_other [OF a nq np] g have "lookup fs2 p = None" by simp
      with b show ?thesis by (simp add: remove_lookup_None)
    next
      fix n fs2
      assume a: "put (files st) (components dst) n = Inr fs2"
        and b: "fs1 = remove fs2 (components u)"
      from put_lookup_other [OF a nq np] g have "lookup fs2 p = None" by simp
      with b show ?thesis by (simp add: remove_lookup_None)
    qed
  qed
qed

lemma loop_keeps_gone:
  "paste_loop st d urls = Some (st', e) \<Longrightarrow> lookup (files st) p = None \<Longrightarrow>
     \<not> prefix (components d) p \<Longrightarrow> \<not> prefix p (components d) \<Longrightarrow> lookup (files st') p = None"
proof (induction urls arbitrary: st)
  case Nil
  then show ?case by simp
next
  case (Cons u urls)
  from paste_item_total obtain r where r: "paste_item st d u = Some r" by blast
  show ?case
  proof (cases r)
    case (Inl x)
    with r Cons.prems(1) have "st' = st" by simp
    with Cons.prems(2) show ?thesis by simp
  next
    case (Inr fs1)
    with r Cons.prems(1)
    have l: "paste_loop (st\<lparr>files := fs1\<rparr>) d urls = Some (st', e)" by simp
    from item_keeps_gone [OF r [unfolded Inr] Cons.prems(2,3,4)]
    have "lookup (files (st\<lparr>files := fs1\<rparr>)) p = None" by simp
    from Cons.IH [OF l this Cons.prems(3,4)] show ?thesis .
  qed
qed

lemma cut_loop_removes:
  "paste_loop st d urls = Some (st', None) \<Longrightarrow> is_cut_operation st \<Longrightarrow> src \<in> set urls \<Longrightarrow>
     src \<in> set (cut_paths st) \<Longrightarrow> \<not> prefix (components d) (components src) \<Longrightarrow>
     lookup (files st') (components src) = None"
proof (induction urls arbitrary: st)
  case Nil
  then show ?case by simp
next
  case (Cons u urls)
  from paste_item_total obtain r where r: "paste_item st d u = Some r" by blast
  show ?case
  proof (cases r)
    case (Inl x)
    with r Cons.prems(1) show ?thesis by simp
  next
    case (Inr fs1)
    with r Cons.prems(1)
    have l: "paste_loop (st\<lparr>files := fs1\<rparr>) d urls = Some (st', None)" by simp
    show ?thesis
    proof (cases "src = u")
      case True
      with Cons.prems(2,4) have "is_move st u" by (simp add: is_move_def)
      from moved_gone [OF r [unfolded Inr] this] True
      have "lookup (files (st\<lparr>files := fs1\<rparr>)) (components src) = None"
        and "\<not> prefix (components src) (components d)" by simp_all
      from loop_keeps_gone [OF l this(1) Cons.prems(5) this(2)] show ?thesis .
    next
      case False
      with Cons.prems(3) have "src \<in> set urls" by simp
      from Cons.IH [OF l _ this _ Cons.prems(5)] Cons.prems(2,4) show ?thesis by simp
    qed
  qed
qed

lemma stat_cong: "lookup fs' (components p) = lookup fs (components p) \<Longrightarrow> stat fs' p = stat fs p"
  by (simp add: stat_def)

lemma action_paste_files:
  assumes "clipboard st = Some urls" and "action_paste st d = Some (st', err)"
  shows "\<exists>r. paste_loop st d urls = Some (r, err) \<and> files st' = files r"
proof -
  from paste_loop_total obtain r e where r: "paste_loop st d urls = Some (r, e)" by fastforce
  with assms show ?thesis by (cases e) (auto simp: action_paste_def split: if_splits)
qed


lemma put_lookup_self: "put fs q new = Inr fs' \<Longrightarrow> lookup fs' q = Some new"
  using put_lookup_below [of fs q new fs' "[]"] by simp

lemma put_mk_lookup_self: "put_mk fs q new = Inr fs' \<Longrightarrow> lookup fs' q = Some new"
  using put_mk_lookup_below [of fs q new fs' "[]"] by simp

lemma move_places_source:
  assumes m: "move fs src dst = Inr fs'" and f: "\<not> exists_path fs dst"
    and s: "stat fs src = Some n"
  shows "lookup fs' (components dst) = Some n"
proof -
  from move_effect [OF m f]
  have np: "\<not> prefix (components src) (components dst)"
    and q: "lookup fs (components dst) = None" by blast+
  from lookup_prefix_exists [OF stat_lookup [OF s], of "components dst"] q
  have nq: "\<not> prefix (components dst) (components src)" by auto
  from m f have mt: "move_to fs src dst dst = Inr fs'"
    by (simp add: move_def not_exists_not_isdir)
  show ?thesis
  proof (cases "os_rename fs src dst")
    case (Inr fs1)
    with mt have "os_rename fs src dst = Inr fs'" by (simp add: move_to_def)
    from os_rename_effect [OF this f] s
    have "put (remove fs (components src)) (components dst) n = Inr fs'" by auto
    then show ?thesis by (rule put_lookup_self)
  next
    case (Inl e)
    show ?thesis
    proof (cases "isdir fs src")
      case True
      with mt Inl obtain fs1 where c: "copytree fs src dst = Inr fs1"
        and fs': "fs' = remove fs1 (components src)"
        by (auto simp: move_to_def split: if_splits sum.splits)
      from copytree_effect [OF c] s have "put_mk fs (components dst) n = Inr fs1" by auto
      from put_mk_lookup_self [OF this] fs' remove_lookup_other [OF np nq, of fs1]
      show ?thesis by simp
    next
      case False
      with mt Inl obtain fs1 where c: "copy2 fs src dst = Inr fs1"
        and fs': "fs' = remove fs1 (components src)"
        by (auto simp: move_to_def split: if_splits sum.splits)
      from copy2_effect [OF c f] s have "put fs (components dst) n = Inr fs1" by auto
      from put_lookup_self [OF this] fs' remove_lookup_other [OF np nq, of fs1]
      show ?thesis by simp
    qed
  qed
qed

lemma transfer_places_source:
  assumes t: "transfer st src dst = Inr fs1" and f: "\<not> exists_path (files st) dst"
    and s: "stat (files st) src = Some n"
  shows "lookup fs1 (components dst) = Some n"
proof (cases "is_move st src")
  case True
  with t have "move (files st) src dst = Inr fs1" by (simp add: transfer_def)
  from move_places_source [OF this f s] show ?thesis .
next
  case False
  show ?thesis
  proof (cases "isdir (files st) src")
    case True
    with t False have "copytree (files st) src dst = Inr fs1" by (simp add: transfer_def)
    from copytree_effect [OF this] s have "put_mk (files st) (components dst) n = Inr fs1"
      by auto
    then show ?thesis by (rule put_mk_lookup_self)
  next
    case nd: False
    with t False have "copy2 (files st) src dst = Inr fs1" by (simp add: transfer_def)
    from copy2_effect [OF this f] s have "put (files st) (components dst) n = Inr fs1" by auto
    then show ?thesis by (rule put_lookup_self)
  qed
qed

lemma paste_item_places_source:
  assumes "paste_item st d src = Some (Inr fs1)" and "stat (files st) src = Some n"
  shows "\<exists>dst. resolve_dest (files st) d src = Some dst \<and> \<not> exists_path (files st) dst
           \<and> lookup fs1 (components dst) = Some n"
proof -
  from assms(1) obtain dst where r: "resolve_dest (files st) d src = Some dst"
    and t: "transfer st src dst = Inr fs1"
    by (auto simp: paste_item_def split: option.splits)
  from transfer_places_source [OF t resolve_dest_fresh [OF r] assms(2)] r resolve_dest_fresh [OF r]
  show ?thesis by blast
qed

section \<open>The claims\<close>


text \<open>
  Claim C4. The destination of a paste item is never an existing path. When
  \<open>dest_dir/name\<close> does not exist it is the destination; otherwise the destination is the
  probe \<open>dest_dir/{base}_copy{n}{ext}\<close> with the least \<open>n \<ge> 1\<close> that does not exist, every
  probe before it being an existing path.
\<close>

theorem resolve_dest_first_free:
  "(\<not> exists_path fs (join dest_dir (basename src_path)) \<longrightarrow>
      resolve_dest fs dest_dir src_path = Some (join dest_dir (basename src_path)))
   \<and> (exists_path fs (join dest_dir (basename src_path)) \<longrightarrow>
        (\<exists>n\<ge>1.
           resolve_dest fs dest_dir src_path
             = Some (join dest_dir (fst (splitext (basename src_path)) @ ''_copy'' @ str n
                                     @ snd (splitext (basename src_path))))
           \<and> \<not> exists_path fs
                 (join dest_dir (fst (splitext (basename src_path)) @ ''_copy'' @ str n
                                  @ snd (splitext (basename src_path))))
           \<and> (\<forall>k. 1 \<le> k \<and> k < n \<longrightarrow>
                 exists_path fs
                   (join dest_dir (fst (splitext (basename src_path)) @ ''_copy'' @ str k
                                    @ snd (splitext (basename src_path)))))))
   \<and> (\<exists>p. resolve_dest fs dest_dir src_path = Some p \<and> \<not> exists_path fs p)"
  using resolve_dest_free [of fs dest_dir src_path]
        resolve_dest_collision [of fs dest_dir src_path]
        resolve_dest_total [of fs dest_dir src_path]
  unfolding probe_path_def by blast

theorem resolve_dest_first_free_witness:
  "exists_path demo_fs (join ''/d'' (basename ''/s/a.txt''))
   \<and> (\<exists>n\<ge>1. resolve_dest demo_fs ''/d'' ''/s/a.txt''
               = Some (join ''/d'' (''a'' @ ''_copy'' @ str n @ ''.txt''))
             \<and> \<not> exists_path demo_fs (join ''/d'' (''a'' @ ''_copy'' @ str n @ ''.txt'')))
   \<and> resolve_dest demo_fs ''/d'' ''/s/a.txt'' = Some ''/d/a_copy2.txt''
   \<and> \<not> exists_path demo_fs (join ''/d'' (basename ''/s/b.txt''))
   \<and> resolve_dest demo_fs ''/d'' ''/s/b.txt'' = Some ''/d/b.txt''"
proof -
  have a: "exists_path demo_fs (join ''/d'' (basename ''/s/a.txt''))" by code_simp
  have s: "splitext (basename ''/s/a.txt'') = (''a'', ''.txt'')" by code_simp
  have b: "\<not> exists_path demo_fs (join ''/d'' (basename ''/s/b.txt''))" by code_simp
  have j: "join ''/d'' (basename ''/s/b.txt'') = ''/d/b.txt''" by code_simp
  have r: "resolve_dest demo_fs ''/d'' ''/s/a.txt'' = Some ''/d/a_copy2.txt''" by code_simp
  from a s resolve_dest_first_free [of demo_fs "''/d''" "''/s/a.txt''"]
  have "\<exists>n\<ge>1. resolve_dest demo_fs ''/d'' ''/s/a.txt''
               = Some (join ''/d'' (''a'' @ ''_copy'' @ str n @ ''.txt''))
             \<and> \<not> exists_path demo_fs (join ''/d'' (''a'' @ ''_copy'' @ str n @ ''.txt''))"
    by auto
  moreover from b j resolve_dest_first_free [of demo_fs "''/d''" "''/s/b.txt''"]
  have "resolve_dest demo_fs ''/d'' ''/s/b.txt'' = Some ''/d/b.txt''" by simp
  ultimately show ?thesis using a b r by blast
qed

text \<open>
  Claim C3 (as the code has it). The split of the name into base and extension is made
  for every pasted item, whatever it is: for a source that is a directory and whose name
  is taken in the destination directory, the destination is
  \<open>dest_dir/{base}_copy{n}{ext}\<close> with \<open>(base, ext) = os.path.splitext(name)\<close>, so that a
  directory \<open>my.folder\<close> becomes \<open>my_copy1.folder\<close>.
\<close>

theorem directory_name_is_split:
  assumes "isdir fs src_path"
    and "exists_path fs (join dest_dir (basename src_path))"
  shows "\<exists>n\<ge>1. resolve_dest fs dest_dir src_path
           = Some (join dest_dir (fst (splitext (basename src_path)) @ ''_copy'' @ str n
                                   @ snd (splitext (basename src_path))))"
  using resolve_dest_collision [OF assms(2)] unfolding probe_path_def by blast

theorem directory_name_is_split_witness:
  "isdir demo_fs ''/s/my.folder''
   \<and> exists_path demo_fs (join ''/d'' (basename ''/s/my.folder''))
   \<and> (\<exists>n\<ge>1. resolve_dest demo_fs ''/d'' ''/s/my.folder''
               = Some (join ''/d'' (''my'' @ ''_copy'' @ str n @ ''.folder'')))"
proof -
  have a: "isdir demo_fs ''/s/my.folder''" by code_simp
  have b: "exists_path demo_fs (join ''/d'' (basename ''/s/my.folder''))" by code_simp
  have s: "splitext (basename ''/s/my.folder'') = (''my'', ''.folder'')" by code_simp
  from directory_name_is_split [OF a b] s a b show ?thesis by simp
qed

theorem directory_name_whole_stem_counterexample:
  "isdir demo_fs ''/s/my.folder''
   \<and> exists_path demo_fs ''/d/my.folder''
   \<and> resolve_dest demo_fs ''/d'' ''/s/my.folder'' = Some ''/d/my_copy1.folder''
   \<and> resolve_dest demo_fs ''/d'' ''/s/my.folder'' \<noteq> Some ''/d/my.folder_copy1''"
  by code_simp

text \<open>
  Claim C9. Copy and cut with an empty selection change nothing: the cut flag, the stored
  cut paths and the clipboard are as before, so that a cut mark recorded earlier stays in
  effect.
\<close>

theorem mark_empty_selection_noop:
  "action_copy st [] = st \<and> action_cut st [] = st
   \<and> is_cut_operation (action_copy st []) = is_cut_operation st
   \<and> cut_paths (action_copy st []) = cut_paths st
   \<and> clipboard (action_copy st []) = clipboard st
   \<and> is_cut_operation (action_cut st []) = is_cut_operation st
   \<and> cut_paths (action_cut st []) = cut_paths st
   \<and> clipboard (action_cut st []) = clipboard st"
  by (simp add: action_copy_def action_cut_def)




text \<open>
  Claim C5 (as the code has it). A paste run with the cut flag set clears the cut state
  (flag, cut paths, clipboard) when every item was pasted without error; when an item
  fails, the flag, the cut paths and the clipboard stay as they were.
\<close>

theorem cut_state_cleared_on_success_only:
  assumes "is_cut_operation st" and "clipboard st = Some urls"
  shows "\<exists>st' err. action_paste st dest_dir = Some (st', err)
           \<and> (if err = None
                then \<not> is_cut_operation st' \<and> cut_paths st' = [] \<and> clipboard st' = None
                else is_cut_operation st' \<and> cut_paths st' = cut_paths st
                     \<and> clipboard st' = clipboard st)"
proof -
  from paste_loop_total obtain r e where r: "paste_loop st dest_dir urls = Some (r, e)"
    by fastforce
  from paste_loop_marks [OF r] assms
  have m: "is_cut_operation r" "cut_paths r = cut_paths st" "clipboard r = clipboard st"
    by simp_all
  show ?thesis
  proof (cases e)
    case None
    with r m assms show ?thesis by (simp add: action_paste_def)
  next
    case (Some x)
    with r m assms show ?thesis by (simp add: action_paste_def)
  qed
qed

theorem cut_state_cleared_on_success_only_witness:
  "is_cut_operation (action_cut demo_state [''/s/b.txt''])
   \<and> clipboard (action_cut demo_state [''/s/b.txt'']) = Some [''/s/b.txt'']
   \<and> (\<exists>st'. action_paste (action_cut demo_state [''/s/b.txt'']) ''/d'' = Some (st', None)
            \<and> \<not> is_cut_operation st' \<and> cut_paths st' = [] \<and> clipboard st' = None)
   \<and> is_cut_operation (action_cut demo_state [''/s/zz.txt''])
   \<and> clipboard (action_cut demo_state [''/s/zz.txt'']) = Some [''/s/zz.txt'']
   \<and> (\<exists>st'. action_paste (action_cut demo_state [''/s/zz.txt'']) ''/d''
              = Some (st', Some FileNotFoundError)
            \<and> is_cut_operation st' \<and> cut_paths st' = [''/s/zz.txt'']
            \<and> clipboard st' = Some [''/s/zz.txt''])"
proof -
  define s1 where "s1 = action_cut demo_state [''/s/b.txt'']"
  define s2 where "s2 = action_cut demo_state [''/s/zz.txt'']"
  have a1: "is_cut_operation s1" and c1: "clipboard s1 = Some [''/s/b.txt'']"
    unfolding s1_def by code_simp+
  have a2: "is_cut_operation s2" and c2: "clipboard s2 = Some [''/s/zz.txt'']"
    and p2: "cut_paths s2 = [''/s/zz.txt'']"
    unfolding s2_def by code_simp+
  have e1: "map_option snd (action_paste s1 ''/d'') = Some None"
    unfolding s1_def by code_simp
  have e2: "map_option snd (action_paste s2 ''/d'') = Some (Some FileNotFoundError)"
    unfolding s2_def by code_simp
  from cut_state_cleared_on_success_only [OF a1 c1, of "''/d''"] e1
  have "\<exists>st'. action_paste s1 ''/d'' = Some (st', None)
            \<and> \<not> is_cut_operation st' \<and> cut_paths st' = [] \<and> clipboard st' = None"
    by (auto split: if_splits)
  moreover from cut_state_cleared_on_success_only [OF a2 c2, of "''/d''"] e2 p2 c2
  have "\<exists>st'. action_paste s2 ''/d'' = Some (st', Some FileNotFoundError)
            \<and> is_cut_operation st' \<and> cut_paths st' = [''/s/zz.txt'']
            \<and> clipboard st' = Some [''/s/zz.txt'']"
    by (auto split: if_splits)
  ultimately show ?thesis using a1 c1 a2 c2 unfolding s1_def s2_def by blast
qed

theorem cut_state_kept_after_failure_counterexample:
  "(case action_paste (action_cut demo_state [''/s/b.txt'', ''/s/zz.txt'']) ''/d''
    of Some (st', Some e) \<Rightarrow>
         exists_path (files st') ''/d/b.txt'' \<and> \<not> exists_path (files st') ''/s/b.txt''
         \<and> is_cut_operation st' \<and> cut_paths st' = [''/s/b.txt'', ''/s/zz.txt'']
         \<and> clipboard st' = Some [''/s/b.txt'', ''/s/zz.txt'']
     | _ \<Rightarrow> False)"
  by code_simp

text \<open>
  Claim C6 (as the code has it). A rename whose new name is empty or equal to the current
  name does nothing and reports nothing: no error dialog is shown, and the state of the
  manager, the file system in it, is unchanged.
\<close>

theorem rename_noop_is_silent:
  assumes "new_name = [] \<or> new_name = old_name"
  shows "action_rename st [(old_path, old_name)] (new_name, ok) = (st, None)"
  using assms by (auto simp: action_rename_def)

theorem rename_noop_is_silent_witness:
  "([] = [] \<or> [] = ''a.txt'')
   \<and> action_rename demo_state [(''/s/a.txt'', ''a.txt'')] ([], True) = (demo_state, None)
   \<and> (''b.txt'' = [] \<or> ''b.txt'' = ''b.txt'')
   \<and> action_rename demo_state [(''/s/b.txt'', ''b.txt'')] (''b.txt'', True) = (demo_state, None)"
  using rename_noop_is_silent [of "[]" "''a.txt''" demo_state "''/s/a.txt''" True]
        rename_noop_is_silent [of "''b.txt''" "''b.txt''" demo_state "''/s/b.txt''" True]
  by simp

theorem rename_noop_reports_nothing_counterexample:
  "snd (action_rename demo_state [(''/s/a.txt'', ''a.txt'')] (''a.txt'', True)) = None
   \<and> snd (action_rename demo_state [(''/s/a.txt'', ''a.txt'')] ('''', True)) = None
   \<and> snd (action_rename demo_state [(''/s/a.txt'', ''a.txt'')] (''my.folder'', True))
       = Some IsADirectoryError"
  by code_simp




text \<open>
  Claim C7 (as the code has it). In a paste run without the cut flag, every file that exists
  before the paste exists after it with the same content, and every directory that the
  destination directory does not lie in (or is) has the same tree after it, whether or
  not the paste ends with an error. In a paste run with the cut flag that ends without
  error, every source of the cut paths that does not lie in the destination directory no
  longer exists after the paste. An item that is pasted without error, copied or moved,
  leaves at its destination the node that the source held: the bytes of a file, the whole
  tree of a directory.
\<close>

theorem copy_keeps_source_cut_removes_source:
  assumes "clipboard st = Some urls" and "action_paste st dest_dir = Some (st', err)"
  shows "(\<not> is_cut_operation st \<longrightarrow>
            (\<forall>src content. stat (files st) src = Some (File content)
                \<longrightarrow> stat (files st') src = Some (File content))
            \<and> (\<forall>src es. stat (files st) src = Some (Dir es)
                  \<and> \<not> prefix (components src) (components dest_dir)
                \<longrightarrow> stat (files st') src = Some (Dir es)))
         \<and> (is_cut_operation st \<and> err = None \<longrightarrow>
              (\<forall>src\<in>set urls. src \<in> set (cut_paths st)
                  \<and> \<not> prefix (components dest_dir) (components src)
                \<longrightarrow> \<not> exists_path (files st') src))
         \<and> (\<forall>s src n fs1. paste_item s dest_dir src = Some (Inr fs1)
                  \<and> stat (files s) src = Some n
                \<longrightarrow> (\<exists>dst. resolve_dest (files s) dest_dir src = Some dst
                       \<and> \<not> exists_path (files s) dst
                       \<and> lookup fs1 (components dst) = Some n))"
proof -
  from action_paste_files [OF assms] obtain r where
    l: "paste_loop st dest_dir urls = Some (r, err)" and f: "files st' = files r" by blast
  have a: "stat (files st') src = Some (File content)"
    if c: "\<not> is_cut_operation st" and s: "stat (files st) src = Some (File content)"
    for src content
  proof -
    from copy_loop_keeps [OF l c] stat_lookup [OF s]
    have "lookup (files r) (components src) = Some (File content)" by blast
    with stat_lookup [OF s] f have "stat (files st') src = stat (files st) src"
      by (intro stat_cong) simp
    with s show ?thesis by simp
  qed
  have b: "stat (files st') src = Some (Dir es)"
    if c: "\<not> is_cut_operation st" and s: "stat (files st) src = Some (Dir es)"
      and n: "\<not> prefix (components src) (components dest_dir)"
    for src es
  proof -
    from copy_loop_keeps [OF l c] stat_lookup [OF s] n
    have "lookup (files r) (components src) = Some (Dir es)" by blast
    with stat_lookup [OF s] f have "stat (files st') src = stat (files st) src"
      by (intro stat_cong) simp
    with s show ?thesis by simp
  qed
  have c: "\<not> exists_path (files st') src"
    if "is_cut_operation st" and "err = None" and "src \<in> set urls"
      and "src \<in> set (cut_paths st)" and "\<not> prefix (components dest_dir) (components src)"
    for src
  proof -
    from l that(2) have "paste_loop st dest_dir urls = Some (r, None)" by simp
    from cut_loop_removes [OF this that(1,3,4,5)] f show ?thesis
      by (simp add: lookup_None_not_exists)
  qed
  have d: "\<exists>dst. resolve_dest (files s) dest_dir src = Some dst
             \<and> \<not> exists_path (files s) dst \<and> lookup fs1 (components dst) = Some n"
    if "paste_item s dest_dir src = Some (Inr fs1)" and "stat (files s) src = Some n"
    for s src n fs1
    using that by (rule paste_item_places_source)
  have "\<not> is_cut_operation st \<longrightarrow>
            (\<forall>src content. stat (files st) src = Some (File content)
                \<longrightarrow> stat (files st') src = Some (File content))
            \<and> (\<forall>src es. stat (files st) src = Some (Dir es)
                  \<and> \<not> prefix (components src) (components dest_dir)
                \<longrightarrow> stat (files st') src = Some (Dir es))"
    using a b by blast
  moreover have "is_cut_operation st \<and> err = None \<longrightarrow>
              (\<forall>src\<in>set urls. src \<in> set (cut_paths st)
                  \<and> \<not> prefix (components dest_dir) (components src)
                \<longrightarrow> \<not> exists_path (files st') src)"
    using c by blast
  moreover have "\<forall>s src n fs1. paste_item s dest_dir src = Some (Inr fs1)
                  \<and> stat (files s) src = Some n
                \<longrightarrow> (\<exists>dst. resolve_dest (files s) dest_dir src = Some dst
                       \<and> \<not> exists_path (files s) dst
                       \<and> lookup fs1 (components dst) = Some n)"
    using d by blast
  ultimately show ?thesis by (intro conjI)
qed

theorem copy_keeps_source_cut_removes_source_witness:
  "(\<exists>st' err. action_paste (action_copy demo_state [''/s/a.txt'', ''/s/my.folder'']) ''/d''
                 = Some (st', err)
               \<and> stat (files st') ''/s/a.txt'' = Some (File ''A'')
               \<and> stat (files st') ''/s/my.folder'' = Some (Dir [(''x'', File ''X'')]))
   \<and> (\<exists>st'. action_paste (action_cut demo_state [''/s/b.txt'', ''/s/my.folder'']) ''/d''
              = Some (st', None)
            \<and> \<not> exists_path (files st') ''/s/b.txt''
            \<and> \<not> exists_path (files st') ''/s/my.folder'')
   \<and> (\<exists>fs1. paste_item (action_copy demo_state [''/s/a.txt'', ''/s/my.folder'']) ''/d''
               ''/s/my.folder'' = Some (Inr fs1)
            \<and> lookup fs1 (components ''/d/my_copy1.folder'') = Some (Dir [(''x'', File ''X'')]))"
proof -
  define sc where "sc = action_copy demo_state [''/s/a.txt'', ''/s/my.folder'']"
  define sx where "sx = action_cut demo_state [''/s/b.txt'', ''/s/my.folder'']"
  have c1: "clipboard sc = Some [''/s/a.txt'', ''/s/my.folder'']"
    and c2: "\<not> is_cut_operation sc"
    and c3: "stat (files sc) ''/s/a.txt'' = Some (File ''A'')"
    and c4: "stat (files sc) ''/s/my.folder'' = Some (Dir [(''x'', File ''X'')])"
    unfolding sc_def by code_simp+
  have c5: "\<not> prefix (components ''/s/my.folder'') (components ''/d'')" by code_simp
  from action_paste_total obtain st' err where p: "action_paste sc ''/d'' = Some (st', err)"
    by fastforce
  from copy_keeps_source_cut_removes_source [OF c1 p] c2 c3 c4 c5
  have "stat (files st') ''/s/a.txt'' = Some (File ''A'')
        \<and> stat (files st') ''/s/my.folder'' = Some (Dir [(''x'', File ''X'')])"
    by blast
  with p have a: "\<exists>st' err. action_paste sc ''/d'' = Some (st', err)
               \<and> stat (files st') ''/s/a.txt'' = Some (File ''A'')
               \<and> stat (files st') ''/s/my.folder'' = Some (Dir [(''x'', File ''X'')])"
    by blast
  have x1: "clipboard sx = Some [''/s/b.txt'', ''/s/my.folder'']"
    and x2: "is_cut_operation sx"
    and x3: "cut_paths sx = [''/s/b.txt'', ''/s/my.folder'']"
    unfolding sx_def by code_simp+
  have x4: "\<not> prefix (components ''/d'') (components ''/s/b.txt'')"
    and x5: "\<not> prefix (components ''/d'') (components ''/s/my.folder'')" by code_simp+
  have x6: "map_option snd (action_paste sx ''/d'') = Some None" unfolding sx_def by code_simp
  then obtain st2 where q: "action_paste sx ''/d'' = Some (st2, None)" by auto
  from copy_keeps_source_cut_removes_source [OF x1 q] x2 x3 x4 x5
  have "\<not> exists_path (files st2) ''/s/b.txt'' \<and> \<not> exists_path (files st2) ''/s/my.folder''"
    by simp
  with q have x: "\<exists>st'. action_paste sx ''/d'' = Some (st', None)
            \<and> \<not> exists_path (files st') ''/s/b.txt''
            \<and> \<not> exists_path (files st') ''/s/my.folder''" by blast
  have "case paste_item sc ''/d'' ''/s/my.folder'' of Some (Inr fs1) \<Rightarrow> True | _ \<Rightarrow> False"
    unfolding sc_def by code_simp
  then obtain fs1 where i: "paste_item sc ''/d'' ''/s/my.folder'' = Some (Inr fs1)"
    by (auto split: option.splits sum.splits)
  have r: "resolve_dest (files sc) ''/d'' ''/s/my.folder'' = Some ''/d/my_copy1.folder''"
    unfolding sc_def by code_simp
  from copy_keeps_source_cut_removes_source [OF c1 p]
  have "\<forall>s src n fs1. paste_item s ''/d'' src = Some (Inr fs1) \<and> stat (files s) src = Some n
          \<longrightarrow> (\<exists>dst. resolve_dest (files s) ''/d'' src = Some dst
                 \<and> \<not> exists_path (files s) dst \<and> lookup fs1 (components dst) = Some n)"
    by (elim conjE)
  with i c4 have "\<exists>dst. resolve_dest (files sc) ''/d'' ''/s/my.folder'' = Some dst
      \<and> \<not> exists_path (files sc) dst
      \<and> lookup fs1 (components dst) = Some (Dir [(''x'', File ''X'')])"
    by blast
  with r have "lookup fs1 (components ''/d/my_copy1.folder'') = Some (Dir [(''x'', File ''X'')])"
    by auto
  with i have "\<exists>fs1. paste_item sc ''/d'' ''/s/my.folder'' = Some (Inr fs1)
            \<and> lookup fs1 (components ''/d/my_copy1.folder'') = Some (Dir [(''x'', File ''X'')])"
    by blast
  with a x show ?thesis unfolding sc_def sx_def by blast
qed

theorem source_after_paste_counterexample:
  "(case action_paste (action_cut demo_state [''/s/zz.txt'', ''/s/b.txt'']) ''/d''
    of Some (st', Some e) \<Rightarrow>
         ''/s/b.txt'' \<in> set (cut_paths st') \<and> exists_path (files st') ''/s/b.txt''
     | _ \<Rightarrow> False)
   \<and> (case action_paste
            (action_cut (demo_state\<lparr>files :=
                Dir [(''s'', Dir [(''b_copy1.txt'', File ''1''), (''b.txt'', File ''2'')])]\<rparr>)
              [''/s/b_copy1.txt'', ''/s/b.txt'']) ''/s''
       of Some (st', None) \<Rightarrow> stat (files st') ''/s/b_copy1.txt'' = Some (File ''2'')
        | _ \<Rightarrow> False)
   \<and> stat demo_fs ''/s/my.folder'' = Some (Dir [(''x'', File ''X'')])
   \<and> (case action_paste (action_copy demo_state [''/s/my.folder'']) ''/s/my.folder''
       of Some (st', None) \<Rightarrow>
            stat (files st') ''/s/my.folder''
              = Some (Dir [(''x'', File ''X''), (''my.folder'', Dir [(''x'', File ''X'')])])
        | _ \<Rightarrow> False)"
  by code_simp



end
